theory Spec2Isabelle
  imports Complex_Main "HOL-Library.Multiset" "HOL-Library.Char_ord" "HOL-Library.List_Lexorder"
begin

section \<open>Data-frame primitives\<close>

text \<open>
  The three scripts are written against a column-oriented data-frame library. Every column
  is nullable: a cell is \<open>None\<close> (the missing value) or \<open>Some v\<close>. Balances are 64-bit
  floats in the source; they are modelled by exact rationals, and the result of a division
  by the four-valued type \<open>f64\<close>, which keeps the non-finite results apart from the missing
  value.
\<close>

datatype f64 = Num rat | PosInf | NegInf | NaN

text \<open>
  \<open>pl.col(c).sum()\<close>: missing cells are skipped; the sum of no cell at all is 0. The sum
  is exact here, where the source adds floats in the order of the rows: the value of a
  balance sum is that of the code up to rounding, and no statement below on the bounds of
  a fraction or on the agreement of two runs rests on it.
\<close>

fun col_sum :: "rat option list \<Rightarrow> rat" where
  "col_sum [] = 0"
| "col_sum (None # vs) = col_sum vs"
| "col_sum (Some v # vs) = v + col_sum vs"

text \<open>\<open>pl.col(c).count()\<close>: the number of cells that are not missing.\<close>

fun col_count :: "'a option list \<Rightarrow> nat" where
  "col_count [] = 0"
| "col_count (None # vs) = col_count vs"
| "col_count (Some v # vs) = Suc (col_count vs)"

text \<open>
  \<open>a / b\<close> on two columns: a missing operand gives a missing result; otherwise the
  operands are divided as floats, where a zero divisor gives an infinity, or NaN for 0/0.
  Nothing raises.
\<close>

fun truediv :: "rat option \<Rightarrow> rat option \<Rightarrow> f64 option" where
  "truediv (Some x) (Some d) =
     Some (if d = 0 then (if x = 0 then NaN else if 0 < x then PosInf else NegInf)
           else Num (x / d))"
| "truediv _ _ = None"

text \<open>\<open>a != b\<close> on two string columns: missing as soon as one operand is missing.\<close>

fun col_ne :: "'a option \<Rightarrow> 'a option \<Rightarrow> bool option" where
  "col_ne (Some x) (Some y) = Some (x \<noteq> y)"
| "col_ne _ _ = None"

text \<open>\<open>df.filter(p)\<close> keeps the rows where the predicate is true, dropping false and missing.\<close>

definition df_filter :: "('r \<Rightarrow> bool option) \<Rightarrow> 'r list \<Rightarrow> 'r list" where
  "df_filter p df = filter (\<lambda>r. p r = Some True) df"

text \<open>
  \<open>df.group_by(key)\<close>: one group per distinct key value, the missing value being a key
  like any other. The order of the groups is not specified by the library; the model
  lists them in a fixed order.
\<close>

definition group_by :: "('r \<Rightarrow> 'k) \<Rightarrow> 'r list \<Rightarrow> ('k \<times> 'r list) list" where
  "group_by key df = map (\<lambda>k. (k, filter (\<lambda>r. key r = k) df)) (remdups (map key df))"

text \<open>
  The right-hand side of every \<open>how="left"\<close> join in the scripts comes out of a
  \<open>group_by\<close> on the join column, so it has one row per key and the join keeps the left
  rows one for one. A missing key on the left finds no partner.
\<close>

definition left_lookup :: "('k option \<times> 'v) list \<Rightarrow> 'k option \<Rightarrow> 'v option" where
  "left_lookup right k = (case k of None \<Rightarrow> None | Some _ \<Rightarrow> map_of right k)"

text \<open>
  \<open>pl.concat(all_results).sort(["transition_month", "n_loans"], descending=[False, True])\<close>
  compares rows by month ascending (strings, byte-wise) and then by loan count descending.
\<close>

definition row_le :: "string \<times> nat \<Rightarrow> string \<times> nat \<Rightarrow> bool" where
  "row_le a b = (fst a < fst b \<or> (fst a = fst b \<and> snd b \<le> snd a))"

text \<open>
  The library promises a sorted rearrangement of the rows and, without
  \<open>maintain_order\<close>, nothing about rows that compare equal. The pipelines therefore take the
  sort as a parameter \<open>srt\<close>, and \<open>sort_contract\<close> is what is known of it.
\<close>

definition sort_contract :: "('r \<Rightarrow> string \<times> nat) \<Rightarrow> ('r list \<Rightarrow> 'r list) \<Rightarrow> bool" where
  "sort_contract key srt =
     (\<forall>xs. mset (srt xs) = mset xs \<and> sorted_wrt (\<lambda>a b. row_le (key a) (key b)) (srt xs))"

text \<open>Two sorts that honour the contract: insertion keeping ties in input order, or reversing them.\<close>

fun insert_row :: "('r \<Rightarrow> string \<times> nat) \<Rightarrow> 'r \<Rightarrow> 'r list \<Rightarrow> 'r list" where
  "insert_row key x [] = [x]"
| "insert_row key x (y # ys) =
     (if row_le (key x) (key y) then x # y # ys else y # insert_row key x ys)"

definition stable_sort :: "('r \<Rightarrow> string \<times> nat) \<Rightarrow> 'r list \<Rightarrow> 'r list" where
  "stable_sort key xs = foldr (insert_row key) xs []"

definition reversing_sort :: "('r \<Rightarrow> string \<times> nat) \<Rightarrow> 'r list \<Rightarrow> 'r list" where
  "reversing_sort key xs = stable_sort key (rev xs)"

datatype error = IndexError | ReadError | ConcatError

section \<open>Output rows\<close>

text \<open>
  The columns both kinds of script write. The flagged-transfer script adds the two raw
  issuer identifiers.
\<close>

record transition =
  servicer_from :: "string option"
  servicer_to :: "string option"
  transition_month :: string
  n_loans :: nat
  total_upb :: rat
  frac_seller_n :: "f64 option"
  frac_seller_upb :: "f64 option"
  frac_buyer_n :: "f64 option"
  frac_buyer_upb :: "f64 option"

definition sort_key :: "'a transition_scheme \<Rightarrow> string \<times> nat" where
  "sort_key r = (transition_month r, n_loans r)"

section \<open>Differencing reconciler (FHLMC and FNMA scripts)\<close>

text \<open>
  The two scripts differ in paths and file-name convention only; one model serves both.
  A monthly file holds the columns Loan Identifier, Servicer Name and
  Current Investor Loan UPB.
\<close>

record loan =
  loan_id :: "string option"
  servicer :: "string option"
  upb :: "rat option"

text \<open>\<open>seller_totals\<close> / \<open>buyer_totals\<close>: per servicer, count of loan identifiers and sum of balance.\<close>

definition totals_by_servicer :: "loan list \<Rightarrow> (string option \<times> nat \<times> rat) list" where
  "totals_by_servicer df =
     map (\<lambda>(k, g). (k, col_count (map loan_id g), col_sum (map upb g))) (group_by servicer df)"

record joined =
  j_loan_id :: "string option"
  j_servicer_from :: "string option"
  j_upb_from :: "rat option"
  j_servicer_to :: "string option"
  j_upb_to :: "rat option"

definition mk_joined :: "loan \<Rightarrow> loan \<Rightarrow> joined" where
  "mk_joined a b = \<lparr>j_loan_id = loan_id a, j_servicer_from = servicer a, j_upb_from = upb a,
                    j_servicer_to = servicer b, j_upb_to = upb b\<rparr>"

text \<open>Inner join on Loan Identifier: every pair of rows with equal, non-missing identifiers.\<close>

definition key_match :: "loan \<Rightarrow> loan \<Rightarrow> bool" where
  "key_match a b = (loan_id a \<noteq> None \<and> loan_id b = loan_id a)"

definition inner_join :: "loan list \<Rightarrow> loan list \<Rightarrow> joined list" where
  "inner_join df_prev df_curr =
     concat (map (\<lambda>a. map (mk_joined a) (filter (key_match a) df_curr)) df_prev)"

definition changed :: "loan list \<Rightarrow> loan list \<Rightarrow> joined list" where
  "changed df_prev df_curr =
     df_filter (\<lambda>j. col_ne (j_servicer_from j) (j_servicer_to j)) (inner_join df_prev df_curr)"

text \<open>
  An aggregate row with its intermediate columns: \<open>kept\<close> holds the columns that survive
  the final \<open>.drop(...)\<close> or \<open>.select(...)\<close>, the other fields are the joined totals.
\<close>

record 'r wide =
  kept :: 'r
  seller_total_n :: "nat option"
  seller_total_upb :: "rat option"
  buyer_total_n :: "nat option"
  buyer_total_upb :: "rat option"

record diff_wide = "transition wide" +
  total_upb_from :: rat

definition rat_of_count :: "nat option \<Rightarrow> rat option" where
  "rat_of_count = map_option of_nat"

definition diff_agg_row ::
  "string \<Rightarrow> (string option \<times> nat \<times> rat) list \<Rightarrow> (string option \<times> nat \<times> rat) list \<Rightarrow>
   (string option \<times> string option) \<times> joined list \<Rightarrow> diff_wide" where
  "diff_agg_row month_curr seller_totals buyer_totals kg =
     (let sf = fst (fst kg); st = snd (fst kg); g = snd kg;
          n = col_count (map j_loan_id g);
          upb_f = col_sum (map j_upb_from g);
          upb_t = col_sum (map j_upb_to g);
          sel = left_lookup seller_totals sf;
          buy = left_lookup buyer_totals st
      in \<lparr>kept =
            \<lparr>servicer_from = sf, servicer_to = st, transition_month = month_curr,
             n_loans = n, total_upb = upb_t,
             frac_seller_n = truediv (Some (of_nat n)) (rat_of_count (map_option fst sel)),
             frac_seller_upb = truediv (Some upb_f) (map_option snd sel),
             frac_buyer_n = truediv (Some (of_nat n)) (rat_of_count (map_option fst buy)),
             frac_buyer_upb = truediv (Some upb_t) (map_option snd buy)\<rparr>,
          seller_total_n = map_option fst sel, seller_total_upb = map_option snd sel,
          buyer_total_n = map_option fst buy, buyer_total_upb = map_option snd buy,
          total_upb_from = upb_f\<rparr>)"

definition diff_agg :: "string \<Rightarrow> loan list \<Rightarrow> loan list \<Rightarrow> diff_wide list" where
  "diff_agg month_curr df_prev df_curr =
     map (diff_agg_row month_curr (totals_by_servicer df_prev) (totals_by_servicer df_curr))
       (group_by (\<lambda>j. (j_servicer_from j, j_servicer_to j)) (changed df_prev df_curr))"

text \<open>One pass of the loop body: the rows appended to \<open>all_results\<close>, if any.\<close>

definition diff_step :: "string \<Rightarrow> loan list \<Rightarrow> loan list \<Rightarrow> transition list option" where
  "diff_step month_curr df_prev df_curr =
     (if 0 < length (changed df_prev df_curr)
      then Some (map kept (diff_agg month_curr df_prev df_curr))
      else None)"

text \<open>
  A monthly file is given with its period token (what \<open>extract_month\<close> reads off the file
  name) and what \<open>load_month\<close> returns: \<open>None\<close> when the read raises.
\<close>

fun diff_loop :: "loan list \<Rightarrow> (string \<times> loan list option) list \<Rightarrow> error + transition list list" where
  "diff_loop df_prev [] = Inr []"
| "diff_loop df_prev ((month_curr, f) # rest) =
     (case f of
        None \<Rightarrow> Inl ReadError
      | Some df_curr \<Rightarrow>
          (case diff_loop df_curr rest of
             Inl e \<Rightarrow> Inl e
           | Inr later \<Rightarrow>
               Inr (case diff_step month_curr df_prev df_curr of
                      None \<Rightarrow> later
                    | Some agg \<Rightarrow> agg # later)))"

text \<open>
  \<open>main\<close>: \<open>Inl\<close> is an uncaught exception, \<open>Inr None\<close> the early return that writes no
  file, \<open>Inr (Some rows)\<close> the rows written to the CSV file.
\<close>

definition diff_main ::
  "(transition list \<Rightarrow> transition list) \<Rightarrow> (string \<times> loan list option) list \<Rightarrow>
   error + transition list option" where
  "diff_main srt files =
     (case files of
        [] \<Rightarrow> Inl IndexError
      | (month0, f0) # rest \<Rightarrow>
          (case f0 of
             None \<Rightarrow> Inl ReadError
           | Some df0 \<Rightarrow>
               (case diff_loop df0 rest of
                  Inl e \<Rightarrow> Inl e
                | Inr all_results \<Rightarrow>
                    if all_results = [] then Inr None
                    else Inr (Some (srt (concat all_results))))))"

section \<open>Flagged-transfer reconciler (GNMA script)\<close>

text \<open>
  The columns read from a monthly loan-level file: \<open>COL_POOL\<close>, the loan sequence number
  (\<open>COL_LOAN\<close>), \<open>COL_ISSUER\<close>, \<open>COL_SELLER\<close> and \<open>COL_UPB\<close> (a string, in cents).
\<close>

record gnma_loan =
  col_pool :: "string option"
  col_loan :: "string option"
  col_issuer :: "string option"
  col_seller :: "string option"
  col_upb :: "string option"

text \<open>
  \<open>.str.strip_chars()\<close> removes white space at both ends. Strings are byte strings here,
  and white space is the ASCII white space.
\<close>

definition is_space :: "char \<Rightarrow> bool" where
  "is_space c = (c \<in> set [CHR '' '', CHR 0x09, CHR 0x0A, CHR 0x0B, CHR 0x0C, CHR 0x0D])"

definition strip_chars :: "string \<Rightarrow> string" where
  "strip_chars s = rev (dropWhile is_space (rev (dropWhile is_space s)))"

text \<open>
  \<open>upb_dollars\<close>: strip, replace the empty string by the missing value, cast to a float
  without raising, divide by 100. The library's string-to-float cast is the parameter
  \<open>cast\<close>; it returns \<open>None\<close> on a string it cannot read, and a finite number otherwise.
\<close>

definition upb_dollars :: "(string \<Rightarrow> rat option) \<Rightarrow> gnma_loan \<Rightarrow> rat option" where
  "upb_dollars cast r =
     (case col_upb r of
        None \<Rightarrow> None
      | Some s \<Rightarrow>
          (let t = strip_chars s
           in if t = [] then None else map_option (\<lambda>x. x / 100) (cast t)))"

text \<open>
  A cast for running the model on examples: an optional minus sign followed by decimal
  digits.
\<close>

definition is_digit :: "char \<Rightarrow> bool" where
  "is_digit c = (CHR ''0'' \<le> c \<and> c \<le> CHR ''9'')"

definition digits_value :: "string \<Rightarrow> nat" where
  "digits_value s = foldl (\<lambda>n c. 10 * n + (of_char c - 48)) 0 s"

definition cast_decimal :: "string \<Rightarrow> rat option" where
  "cast_decimal s =
     (case s of
        [] \<Rightarrow> None
      | c # cs \<Rightarrow>
          if c = CHR ''-'' then
            (if cs \<noteq> [] \<and> list_all is_digit cs then Some (- of_nat (digits_value cs)) else None)
          else if list_all is_digit s then Some (of_nat (digits_value s)) else None)"

text \<open>\<open>servicer_totals\<close>: per current issuer, number of rows and sum of balance.\<close>

definition servicer_totals ::
  "(string \<Rightarrow> rat option) \<Rightarrow> gnma_loan list \<Rightarrow> (string option \<times> nat \<times> rat) list" where
  "servicer_totals cast df_month =
     map (\<lambda>(k, g). (k, length g, col_sum (map (upb_dollars cast) g))) (group_by col_issuer df_month)"

text \<open>\<open>transfers\<close>: the rows whose seller field is present and not blank.\<close>

definition is_transfer :: "gnma_loan \<Rightarrow> bool" where
  "is_transfer r = (case col_seller r of None \<Rightarrow> False | Some s \<Rightarrow> strip_chars s \<noteq> [])"

definition transfers :: "gnma_loan list \<Rightarrow> gnma_loan list" where
  "transfers df_month = filter is_transfer df_month"

text \<open>
  \<open>seller_book\<close>: per seller, transferred plus remaining, the remaining side filled with 0
  where the seller has no row in \<open>servicer_totals\<close>.
\<close>

definition seller_book ::
  "(string \<Rightarrow> rat option) \<Rightarrow> gnma_loan list \<Rightarrow> (string option \<times> nat \<times> rat) list" where
  "seller_book cast df_month =
     map (\<lambda>(k, g).
            (let seller_xfer_n = length g;
                 seller_xfer_upb = col_sum (map (upb_dollars cast) g);
                 remain = left_lookup (servicer_totals cast df_month) k;
                 seller_remain_n = map_option fst remain;
                 seller_remain_upb = map_option snd remain
             in (k, seller_xfer_n + (case seller_remain_n of None \<Rightarrow> 0 | Some n \<Rightarrow> n),
                    seller_xfer_upb + (case seller_remain_upb of None \<Rightarrow> 0 | Some u \<Rightarrow> u))))
         (group_by col_seller (transfers df_month))"

text \<open>
  \<open>issuer_name\<close>: the looked-up name, or a placeholder made of the identifier. The lookup
  \<open>name_map\<close> is built once before the loop and only read afterwards; it is an input
  here. A missing identifier stays missing.
\<close>

definition issuer_name :: "(string \<rightharpoonup> string) \<Rightarrow> string \<Rightarrow> string" where
  "issuer_name name_map iid = (case name_map iid of None \<Rightarrow> ''ID:'' @ iid | Some n \<Rightarrow> n)"

record gnma_out = transition +
  seller_issuer_id :: "string option"
  issuer_id :: "string option"

definition gnma_agg_row ::
  "(string \<Rightarrow> rat option) \<Rightarrow> (string \<rightharpoonup> string) \<Rightarrow> string \<Rightarrow>
   (string option \<times> nat \<times> rat) list \<Rightarrow> (string option \<times> nat \<times> rat) list \<Rightarrow>
   (string option \<times> string option) \<times> gnma_loan list \<Rightarrow> gnma_out wide" where
  "gnma_agg_row cast name_map month totals book kg =
     (let seller = fst (fst kg); issuer = snd (fst kg); g = snd kg;
          n = length g;
          upb = col_sum (map (upb_dollars cast) g);
          buy = left_lookup totals issuer;
          sel = left_lookup book seller
      in \<lparr>kept =
            \<lparr>servicer_from = map_option (issuer_name name_map) seller,
             servicer_to = map_option (issuer_name name_map) issuer,
             transition_month = month,
             n_loans = n, total_upb = upb,
             frac_seller_n = truediv (Some (of_nat n)) (rat_of_count (map_option fst sel)),
             frac_seller_upb = truediv (Some upb) (map_option snd sel),
             frac_buyer_n = truediv (Some (of_nat n)) (rat_of_count (map_option fst buy)),
             frac_buyer_upb = truediv (Some upb) (map_option snd buy),
             seller_issuer_id = seller, issuer_id = issuer\<rparr>,
          seller_total_n = map_option fst sel, seller_total_upb = map_option snd sel,
          buyer_total_n = map_option fst buy, buyer_total_upb = map_option snd buy\<rparr>)"

definition gnma_agg ::
  "(string \<Rightarrow> rat option) \<Rightarrow> (string \<rightharpoonup> string) \<Rightarrow> string \<Rightarrow> gnma_loan list \<Rightarrow>
   gnma_out wide list" where
  "gnma_agg cast name_map month df_month =
     map (gnma_agg_row cast name_map month (servicer_totals cast df_month)
            (seller_book cast df_month))
       (group_by (\<lambda>r. (col_seller r, col_issuer r)) (transfers df_month))"

text \<open>One pass of the loop body after loading: the rows appended to \<open>all_results\<close>, if any.\<close>

definition gnma_step ::
  "(string \<Rightarrow> rat option) \<Rightarrow> (string \<rightharpoonup> string) \<Rightarrow> string \<Rightarrow> gnma_loan list \<Rightarrow>
   gnma_out list option" where
  "gnma_step cast name_map month df_month =
     (if 0 < length (transfers df_month)
      then Some (map kept (gnma_agg cast name_map month df_month))
      else None)"

text \<open>
  A physical source of a month: a file that cannot be scanned or lacks a selected column
  (the scan raises), a file with neither loan-sequence column (the loop says
  \<open>continue\<close>), or a frame of rows.
\<close>

datatype parquet = Unreadable | NoLoanColumn | Frame "gnma_loan list"

fun month_frames :: "parquet list \<Rightarrow> error + gnma_loan list list" where
  "month_frames [] = Inr []"
| "month_frames (Unreadable # fs) = Inl ReadError"
| "month_frames (NoLoanColumn # fs) = month_frames fs"
| "month_frames (Frame rows # fs) =
     (case month_frames fs of Inl e \<Rightarrow> Inl e | Inr frames \<Rightarrow> Inr (rows # frames))"

text \<open>
  \<open>pl.concat(month_frames).unique(subset=[COL_POOL, COL_LOAN])\<close>. Concatenating no frame
  raises. \<open>unique\<close> is called with the library's defaults, which keep one row per key
  and promise neither which one nor an order; it is the parameter \<open>uniq\<close>, and
  \<open>unique_contract\<close> is what is known of it.
\<close>

definition dedup_key :: "gnma_loan \<Rightarrow> string option \<times> string option" where
  "dedup_key r = (col_pool r, col_loan r)"

definition unique_contract :: "(gnma_loan list \<Rightarrow> gnma_loan list) \<Rightarrow> bool" where
  "unique_contract uniq =
     (\<forall>xs. distinct (map dedup_key (uniq xs)) \<and> set (uniq xs) \<subseteq> set xs \<and>
           dedup_key ` set (uniq xs) = dedup_key ` set xs)"

text \<open>Two behaviours within the contract: keep the first row of each key, or the last.\<close>

fun unique_first :: "gnma_loan list \<Rightarrow> gnma_loan list" where
  "unique_first [] = []"
| "unique_first (r # rs) = r # unique_first (filter (\<lambda>x. dedup_key x \<noteq> dedup_key r) rs)"

definition unique_last :: "gnma_loan list \<Rightarrow> gnma_loan list" where
  "unique_last xs = rev (unique_first (rev xs))"

definition load_month ::
  "(gnma_loan list \<Rightarrow> gnma_loan list) \<Rightarrow> parquet list \<Rightarrow> error + gnma_loan list" where
  "load_month uniq fs =
     (case month_frames fs of
        Inl e \<Rightarrow> Inl e
      | Inr frames \<Rightarrow> if frames = [] then Inl ConcatError else Inr (uniq (concat frames)))"

fun gnma_loop ::
  "(gnma_loan list \<Rightarrow> gnma_loan list) \<Rightarrow> (string \<Rightarrow> rat option) \<Rightarrow> (string \<rightharpoonup> string) \<Rightarrow>
   (string \<times> parquet list) list \<Rightarrow> error + gnma_out list list" where
  "gnma_loop uniq cast name_map [] = Inr []"
| "gnma_loop uniq cast name_map ((month, fs) # rest) =
     (case load_month uniq fs of
        Inl e \<Rightarrow> Inl e
      | Inr df_month \<Rightarrow>
          (case gnma_loop uniq cast name_map rest of
             Inl e \<Rightarrow> Inl e
           | Inr later \<Rightarrow>
               Inr (case gnma_step cast name_map month df_month of
                      None \<Rightarrow> later
                    | Some agg \<Rightarrow> agg # later)))"

text \<open>
  \<open>main\<close>, from the sorted months on: the files of each month are given in the order
  llmon1 then llmon2. \<open>Inl\<close> is an uncaught exception, \<open>Inr None\<close> the early return that
  writes no file, \<open>Inr (Some rows)\<close> the rows written to the CSV file. The console report
  printed after the file is written is not modelled.
\<close>

definition gnma_main ::
  "(gnma_loan list \<Rightarrow> gnma_loan list) \<Rightarrow> (gnma_out list \<Rightarrow> gnma_out list) \<Rightarrow>
   (string \<Rightarrow> rat option) \<Rightarrow> (string \<rightharpoonup> string) \<Rightarrow> (string \<times> parquet list) list \<Rightarrow>
   error + gnma_out list option" where
  "gnma_main uniq srt cast name_map months =
     (if months = [] then Inl IndexError
      else
        (case gnma_loop uniq cast name_map months of
           Inl e \<Rightarrow> Inl e
         | Inr all_results \<Rightarrow>
             if all_results = [] then Inr None
             else Inr (Some (srt (concat all_results)))))"

section \<open>Properties stated by the specification\<close>

text \<open>
  The output order the specification asks for: non-decreasing period and, among rows of the
  same period, non-increasing loan count.
\<close>

definition period_count_sorted :: "'a transition_scheme list \<Rightarrow> bool" where
  "period_count_sorted out =
     (\<forall>i j. i < j \<and> j < length out \<longrightarrow>
        transition_month (out ! i) \<le> transition_month (out ! j) \<and>
        (transition_month (out ! i) = transition_month (out ! j) \<longrightarrow>
           n_loans (out ! j) \<le> n_loans (out ! i)))"

text \<open>
  The columns of an output row that hold no balance: the two names, the period, the loan
  count, the two count fractions and, in the flagged-transfer script, the two raw
  identifiers (the extension part of the record).
\<close>

definition count_columns ::
  "'a transition_scheme \<Rightarrow>
   string option \<times> string option \<times> string \<times> nat \<times> f64 option \<times> f64 option \<times> 'a" where
  "count_columns r =
     (servicer_from r, servicer_to r, transition_month r, n_loans r,
      frac_seller_n r, frac_buyer_n r, transition.more r)"

text \<open>
  Two runs agree up to ties: the same exception, or no file in both, or outputs that hold
  the same rows as far as the columns without balances go and show the same sequence of
  (period, loan count). Nothing is said of the balance sum and the two balance fractions.
\<close>

definition same_up_to_ties ::
  "error + ('a transition_scheme) list option \<Rightarrow> error + ('a transition_scheme) list option \<Rightarrow> bool" where
  "same_up_to_ties x y =
     (case (x, y) of
        (Inl e, Inl e') \<Rightarrow> e = e'
      | (Inr None, Inr None) \<Rightarrow> True
      | (Inr (Some a), Inr (Some b)) \<Rightarrow>
          mset (map count_columns a) = mset (map count_columns b) \<and>
          map sort_key a = map sort_key b
      | _ \<Rightarrow> False)"

text \<open>Two deduplications keep the same rows, possibly in a different order.\<close>

definition same_kept_rows ::
  "(gnma_loan list \<Rightarrow> gnma_loan list) \<Rightarrow> (gnma_loan list \<Rightarrow> gnma_loan list) \<Rightarrow> bool" where
  "same_kept_rows uniq1 uniq2 = (\<forall>xs. mset (uniq1 xs) = mset (uniq2 xs))"

text \<open>The precondition on a snapshot: loan identifiers, where present, are unique.\<close>

definition unique_ids :: "loan list \<Rightarrow> bool" where
  "unique_ids df = distinct (filter (\<lambda>i. i \<noteq> None) (map loan_id df))"

text \<open>
  A count fraction against its denominator: missing when the denominator is missing;
  otherwise the denominator is at least 1 and the fraction is a number between 0 and 1.
\<close>

definition count_fraction_ok :: "nat option \<Rightarrow> f64 option \<Rightarrow> bool" where
  "count_fraction_ok den fr =
     (case den of
        None \<Rightarrow> fr = None
      | Some d \<Rightarrow> 1 \<le> d \<and> (\<exists>q. fr = Some (Num q) \<and> 0 \<le> q \<and> q \<le> 1))"

text \<open>
  A balance fraction against its denominator: missing exactly when the denominator is
  missing, and not a number when the denominator is 0. No bound is stated.
\<close>

definition balance_fraction_ok :: "rat option \<Rightarrow> f64 option \<Rightarrow> bool" where
  "balance_fraction_ok den fr =
     (case den of
        None \<Rightarrow> fr = None
      | Some d \<Rightarrow>
          fr \<noteq> None \<and> (d = 0 \<longrightarrow> fr = Some NaN \<or> fr = Some PosInf \<or> fr = Some NegInf))"

text \<open>An auxiliary reading of a nullable cell, used to state counts.\<close>

definition present :: "'a option \<Rightarrow> nat" where
  "present v = (case v of None \<Rightarrow> 0 | Some x \<Rightarrow> 1)"

section \<open>Example inputs\<close>

text \<open>
  Two consecutive months: loan L1 stays with servicer A, loan L2 moves from A to B, loan L0
  is in the first month only and loan L3 in the second month only.
\<close>

definition scen_prev :: "loan list" where
  "scen_prev =
     [\<lparr>loan_id = Some ''L1'', servicer = Some ''A'', upb = Some 100\<rparr>,
      \<lparr>loan_id = Some ''L2'', servicer = Some ''A'', upb = Some 200\<rparr>,
      \<lparr>loan_id = Some ''L0'', servicer = Some ''C'', upb = Some 50\<rparr>]"

definition scen_curr :: "loan list" where
  "scen_curr =
     [\<lparr>loan_id = Some ''L1'', servicer = Some ''A'', upb = Some 90\<rparr>,
      \<lparr>loan_id = Some ''L2'', servicer = Some ''B'', upb = Some 190\<rparr>,
      \<lparr>loan_id = Some ''L3'', servicer = Some ''B'', upb = Some 300\<rparr>]"

text \<open>A loan whose servicer name is missing in the first month and present in the second.\<close>

definition null_prev :: "loan list" where
  "null_prev = [\<lparr>loan_id = Some ''L1'', servicer = None, upb = Some 100\<rparr>]"

definition null_curr :: "loan list" where
  "null_curr = [\<lparr>loan_id = Some ''L1'', servicer = Some ''X'', upb = Some 100\<rparr>]"

text \<open>
  One month of the flagged source: one loan transferred from issuer X to issuer Y, one
  loan with a blank seller field and an empty balance, one loan whose balance is not a
  number.
\<close>

definition flag_month :: "gnma_loan list" where
  "flag_month =
     [\<lparr>col_pool = Some ''P1'', col_loan = Some ''1'', col_issuer = Some ''Y'',
       col_seller = Some ''X'', col_upb = Some '' 12345 ''\<rparr>,
      \<lparr>col_pool = Some ''P1'', col_loan = Some ''2'', col_issuer = Some ''Y'',
       col_seller = None, col_upb = Some ''10000''\<rparr>,
      \<lparr>col_pool = Some ''P1'', col_loan = Some ''3'', col_issuer = Some ''Y'',
       col_seller = Some ''  '', col_upb = Some ''''\<rparr>,
      \<lparr>col_pool = Some ''P2'', col_loan = Some ''1'', col_issuer = Some ''X'',
       col_seller = None, col_upb = Some ''abc''\<rparr>]"

text \<open>The rows the two example inputs produce.\<close>

definition scen_row :: transition where
  "scen_row = \<lparr>servicer_from = Some ''A'', servicer_to = Some ''B'',
        transition_month = ''201907'', n_loans = 1, total_upb = 190,
        frac_seller_n = Some (Num (1 / 2)),
        frac_seller_upb = Some (Num (2 / 3)),
        frac_buyer_n = Some (Num (1 / 2)),
        frac_buyer_upb = Some (Num (19 / 49))\<rparr>"

definition flag_row :: gnma_out where
  "flag_row = \<lparr>servicer_from = Some ''ID:X'', servicer_to = Some ''ID:Y'',
        transition_month = ''201504'', n_loans = 1, total_upb = 2469 / 20,
        frac_seller_n = Some (Num (1 / 2)), frac_seller_upb = Some (Num 1),
        frac_buyer_n = Some (Num (1 / 3)),
        frac_buyer_upb = Some (Num (2469 / 4469)),
        seller_issuer_id = Some ''X'', issuer_id = Some ''Y''\<rparr>"

text \<open>A third month for the differencing example: L1 moves from A to B, L2 and L3 from B to C.\<close>

definition scen_next :: "loan list" where
  "scen_next =
     [\<lparr>loan_id = Some ''L1'', servicer = Some ''B'', upb = Some 80\<rparr>,
      \<lparr>loan_id = Some ''L2'', servicer = Some ''C'', upb = Some 180\<rparr>,
      \<lparr>loan_id = Some ''L3'', servicer = Some ''C'', upb = Some 290\<rparr>]"

definition row_AB :: transition where
  "row_AB = \<lparr>servicer_from = Some ''A'', servicer_to = Some ''B'',
        transition_month = ''201908'', n_loans = 1, total_upb = 80,
        frac_seller_n = Some (Num 1), frac_seller_upb = Some (Num 1),
        frac_buyer_n = Some (Num 1), frac_buyer_upb = Some (Num 1)\<rparr>"

definition row_BC :: transition where
  "row_BC = \<lparr>servicer_from = Some ''B'', servicer_to = Some ''C'',
        transition_month = ''201908'', n_loans = 2, total_upb = 470,
        frac_seller_n = Some (Num 1), frac_seller_upb = Some (Num 1),
        frac_buyer_n = Some (Num 1), frac_buyer_upb = Some (Num 1)\<rparr>"

text \<open>
  Flagged-source examples: two rows with the same (pool, loan sequence) key that differ in
  the seller field; a month with two transfers of one loan each; a month with a loan whose
  seller equals its issuer; a month whose only balance is blank; a month with a negative
  balance.
\<close>

definition dup_early :: gnma_loan where
  "dup_early = \<lparr>col_pool = Some ''P1'', col_loan = Some ''1'', col_issuer = Some ''Y'',
                col_seller = Some ''X'', col_upb = Some ''10000''\<rparr>"

definition dup_late :: gnma_loan where
  "dup_late = \<lparr>col_pool = Some ''P1'', col_loan = Some ''1'', col_issuer = Some ''Y'',
               col_seller = Some ''Z'', col_upb = Some ''10000''\<rparr>"

definition tie_month :: "gnma_loan list" where
  "tie_month = [dup_early,
     \<lparr>col_pool = Some ''P1'', col_loan = Some ''2'', col_issuer = Some ''Y'',
      col_seller = Some ''Z'', col_upb = Some ''10000''\<rparr>]"

definition self_month :: "gnma_loan list" where
  "self_month = [\<lparr>col_pool = Some ''P1'', col_loan = Some ''1'', col_issuer = Some ''X'',
      col_seller = Some ''X'', col_upb = Some ''10000''\<rparr>]"

definition row_XY :: gnma_out where
  "row_XY = \<lparr>servicer_from = Some ''ID:X'', servicer_to = Some ''ID:Y'',
        transition_month = ''201504'', n_loans = 1, total_upb = 100,
        frac_seller_n = Some (Num 1), frac_seller_upb = Some (Num 1),
        frac_buyer_n = Some (Num (1 / 2)), frac_buyer_upb = Some (Num (1 / 2)),
        seller_issuer_id = Some ''X'', issuer_id = Some ''Y''\<rparr>"

definition row_ZY :: gnma_out where
  "row_ZY = \<lparr>servicer_from = Some ''ID:Z'', servicer_to = Some ''ID:Y'',
        transition_month = ''201504'', n_loans = 1, total_upb = 100,
        frac_seller_n = Some (Num 1), frac_seller_upb = Some (Num 1),
        frac_buyer_n = Some (Num (1 / 2)), frac_buyer_upb = Some (Num (1 / 2)),
        seller_issuer_id = Some ''Z'', issuer_id = Some ''Y''\<rparr>"

definition row_XY_alone :: gnma_out where
  "row_XY_alone = \<lparr>servicer_from = Some ''ID:X'', servicer_to = Some ''ID:Y'',
        transition_month = ''201504'', n_loans = 1, total_upb = 100,
        frac_seller_n = Some (Num 1), frac_seller_upb = Some (Num 1),
        frac_buyer_n = Some (Num 1), frac_buyer_upb = Some (Num 1),
        seller_issuer_id = Some ''X'', issuer_id = Some ''Y''\<rparr>"

definition row_ZY_alone :: gnma_out where
  "row_ZY_alone = \<lparr>servicer_from = Some ''ID:Z'', servicer_to = Some ''ID:Y'',
        transition_month = ''201504'', n_loans = 1, total_upb = 100,
        frac_seller_n = Some (Num 1), frac_seller_upb = Some (Num 1),
        frac_buyer_n = Some (Num 1), frac_buyer_upb = Some (Num 1),
        seller_issuer_id = Some ''Z'', issuer_id = Some ''Y''\<rparr>"

definition blank_month :: "gnma_loan list" where
  "blank_month = [\<lparr>col_pool = Some ''P1'', col_loan = Some ''1'', col_issuer = Some ''Y'',
      col_seller = Some ''X'', col_upb = Some '' ''\<rparr>]"

definition negative_month :: "gnma_loan list" where
  "negative_month = [\<lparr>col_pool = Some ''P1'', col_loan = Some ''1'', col_issuer = Some ''Y'',
      col_seller = Some ''X'', col_upb = Some ''-100''\<rparr>,
     \<lparr>col_pool = Some ''P1'', col_loan = Some ''2'', col_issuer = Some ''X'',
      col_seller = None, col_upb = Some ''300''\<rparr>,
     \<lparr>col_pool = Some ''P1'', col_loan = Some ''3'', col_issuer = Some ''Y'',
      col_seller = None, col_upb = Some ''300''\<rparr>]"

section \<open>Running the examples\<close>

lemma scen_changed:
  "changed scen_prev scen_curr =
     [\<lparr>j_loan_id = Some ''L2'', j_servicer_from = Some ''A'', j_upb_from = Some 200,
       j_servicer_to = Some ''B'', j_upb_to = Some 190\<rparr>]"
  by (simp add: scen_prev_def scen_curr_def changed_def df_filter_def inner_join_def
        key_match_def mk_joined_def)

lemma strip_simps:
  "strip_chars '' 12345 '' = ''12345''" "strip_chars ''  '' = []" "strip_chars ''X'' = ''X''"
  "strip_chars [] = []" "strip_chars ''10000'' = ''10000''" "strip_chars ''abc'' = ''abc''"
  "strip_chars ''Y'' = ''Y''" "strip_chars ''Z'' = ''Z''" "strip_chars ''-100'' = ''-100''"
  "strip_chars ''300'' = ''300''" "strip_chars '' '' = []"
  by (simp_all add: strip_chars_def is_space_def)

lemma cast_simps: "cast_decimal ''12345'' = Some 12345" "cast_decimal ''abc'' = None"
   "cast_decimal ''10000'' = Some 10000" "cast_decimal ''-100'' = Some (-100)"
   "cast_decimal ''300'' = Some 300"
  by (simp_all add: cast_decimal_def is_digit_def digits_value_def less_eq_char_def)

lemma flag_transfers: "transfers flag_month = 
   [\<lparr>col_pool = Some ''P1'', col_loan = Some ''1'', col_issuer = Some ''Y'',
       col_seller = Some ''X'', col_upb = Some '' 12345 ''\<rparr>]"
  by (simp add: transfers_def is_transfer_def flag_month_def strip_simps)

lemma flag_totals: "servicer_totals cast_decimal flag_month = [(Some ''Y'', 3, 4469/20), (Some ''X'', 1, 0)]"
  by (simp add: servicer_totals_def group_by_def flag_month_def upb_dollars_def strip_simps cast_simps)

lemma flag_book: "seller_book cast_decimal flag_month = [(Some ''X'', 2, 2469/20)]"
  by (simp add: seller_book_def group_by_def flag_transfers flag_totals left_lookup_def upb_dollars_def strip_simps cast_simps)

lemma flag_agg: "gnma_agg cast_decimal Map.empty ''201504'' flag_month = 
  [\<lparr>kept =
     \<lparr>servicer_from = Some ''ID:X'', servicer_to = Some ''ID:Y'',
        transition_month = ''201504'', n_loans = 1, total_upb = 2469 / 20,
        frac_seller_n = Some (Num (1 / 2)), frac_seller_upb = Some (Num 1),
        frac_buyer_n = Some (Num (1 / 3)),
        frac_buyer_upb = Some (Num (2469 / 4469)),
        seller_issuer_id = Some ''X'', issuer_id = Some ''Y''\<rparr>,
     seller_total_n = Some 2, seller_total_upb = Some (2469 / 20),
     buyer_total_n = Some 3, buyer_total_upb = Some (4469 / 20)\<rparr>]"
  by (simp add: gnma_agg_def gnma_agg_row_def group_by_def flag_transfers flag_totals flag_book 
      left_lookup_def upb_dollars_def strip_simps cast_simps issuer_name_def rat_of_count_def Let_def)

lemma scen_totals:
  "totals_by_servicer scen_prev = [(Some ''A'', 2, 300), (Some ''C'', 1, 50)]"
  "totals_by_servicer scen_curr = [(Some ''A'', 1, 90), (Some ''B'', 2, 490)]"
  by (simp_all add: totals_by_servicer_def group_by_def scen_prev_def scen_curr_def)

lemma scen_agg:
  "diff_agg ''201907'' scen_prev scen_curr =
   [\<lparr>kept =
     \<lparr>servicer_from = Some ''A'', servicer_to = Some ''B'',
        transition_month = ''201907'', n_loans = 1, total_upb = 190,
        frac_seller_n = Some (Num (1 / 2)),
        frac_seller_upb = Some (Num (2 / 3)),
        frac_buyer_n = Some (Num (1 / 2)),
        frac_buyer_upb = Some (Num (19 / 49))\<rparr>,
     seller_total_n = Some 2, seller_total_upb = Some 300,
     buyer_total_n = Some 2, buyer_total_upb = Some 490,
     total_upb_from = 200\<rparr>]"
  by (simp add: diff_agg_def diff_agg_row_def group_by_def scen_changed scen_totals left_lookup_def
        rat_of_count_def Let_def)

lemma changed_empty: "changed p [] = []"
  by (simp add: changed_def df_filter_def inner_join_def)

lemma scen_step: "diff_step ''201907'' scen_prev scen_curr = Some [scen_row]"
  by (simp add: diff_step_def scen_changed scen_agg scen_row_def)

lemma flag_step: "gnma_step cast_decimal Map.empty ''201504'' flag_month = Some [flag_row]"
  by (simp add: gnma_step_def flag_transfers flag_agg flag_row_def)

lemma empty_step: "diff_step m p [] = None" "gnma_step cast nm m [] = None"
  by (simp_all add: diff_step_def changed_empty gnma_step_def transfers_def)

lemma unique_first_flag: "unique_first flag_month = flag_month"
  by (simp add: flag_month_def dedup_key_def)

lemmas gnma_eval = gnma_step_def gnma_agg_def gnma_agg_row_def group_by_def transfers_def
  is_transfer_def servicer_totals_def seller_book_def left_lookup_def upb_dollars_def
  strip_simps cast_simps issuer_name_def rat_of_count_def Let_def

lemma tie_step:
  "gnma_step cast_decimal Map.empty ''201504'' tie_month = Some [row_XY, row_ZY]"
  by (simp add: gnma_eval tie_month_def dup_early_def row_XY_def row_ZY_def)

lemma unique_tie: "unique_first tie_month = tie_month"
  by (simp add: tie_month_def dup_early_def dedup_key_def)

lemma tie_main_stable:
  "gnma_main unique_first (stable_sort sort_key) cast_decimal Map.empty
     [(''201504'', [Frame tie_month])] = Inr (Some [row_XY, row_ZY])"
  by (simp add: gnma_main_def load_month_def unique_tie tie_step stable_sort_def row_le_def
        sort_key_def row_XY_def row_ZY_def)

lemma tie_main_reversing:
  "gnma_main unique_first (reversing_sort sort_key) cast_decimal Map.empty
     [(''201504'', [Frame tie_month])] = Inr (Some [row_ZY, row_XY])"
  by (simp add: gnma_main_def load_month_def unique_tie tie_step stable_sort_def reversing_sort_def
      row_le_def sort_key_def row_XY_def row_ZY_def)

lemma dup_load:
  "load_month unique_first [Frame [dup_early], Frame [dup_late]] = Inr [dup_early]"
  "load_month unique_last [Frame [dup_early], Frame [dup_late]] = Inr [dup_late]"
  by (simp_all add: load_month_def unique_last_def dedup_key_def dup_early_def dup_late_def)

lemma dup_steps:
  "gnma_step cast_decimal Map.empty ''201504'' [dup_early] = Some [row_XY_alone]"
  "gnma_step cast_decimal Map.empty ''201504'' [dup_late] = Some [row_ZY_alone]"
  by (simp_all add: gnma_eval dup_early_def dup_late_def row_XY_alone_def row_ZY_alone_def)

lemma dup_main:
  "gnma_main unique_first (stable_sort sort_key) cast_decimal Map.empty
     [(''201504'', [Frame [dup_early], Frame [dup_late]])] = Inr (Some [row_XY_alone])"
  "gnma_main unique_last (stable_sort sort_key) cast_decimal Map.empty
     [(''201504'', [Frame [dup_early], Frame [dup_late]])] = Inr (Some [row_ZY_alone])"
  by (simp_all add: gnma_main_def dup_load dup_steps stable_sort_def)

lemma self_load: "load_month unique_first [Frame self_month] = Inr self_month"
  by (simp add: load_month_def self_month_def dedup_key_def)

lemmas diff_eval = diff_step_def diff_agg_def diff_agg_row_def group_by_def changed_def
  df_filter_def inner_join_def key_match_def mk_joined_def totals_by_servicer_def
  left_lookup_def rat_of_count_def Let_def

lemma next_step: "diff_step ''201908'' scen_curr scen_next = Some [row_AB, row_BC]"
  by (simp add: diff_eval scen_curr_def scen_next_def row_AB_def row_BC_def)

lemma three_months_main:
  "diff_main (stable_sort sort_key)
     [(''201906'', Some scen_prev), (''201907'', Some scen_curr), (''201908'', Some scen_next)]
   = Inr (Some [scen_row, row_BC, row_AB])"
  by (simp add: diff_main_def scen_step next_step stable_sort_def row_le_def sort_key_def
        scen_row_def row_AB_def row_BC_def)

section \<open>Differencing reconciler: the transition set\<close>

lemma set_inner_join:
  "set (inner_join p c) = {mk_joined a b | a b. a \<in> set p \<and> b \<in> set c \<and> key_match a b}"
  by (auto simp: inner_join_def)

lemma col_ne_True: "col_ne x y = Some True \<longleftrightarrow> (\<exists>f t. x = Some f \<and> y = Some t \<and> f \<noteq> t)"
  by (cases x; cases y; simp)

lemma mk_joined_sel [simp]:
  "j_loan_id (mk_joined a b) = loan_id a"
  "j_servicer_from (mk_joined a b) = servicer a"
  "j_upb_from (mk_joined a b) = upb a"
  "j_servicer_to (mk_joined a b) = servicer b"
  "j_upb_to (mk_joined a b) = upb b"
  by (simp_all add: mk_joined_def)

lemma changed_iff:
  "j \<in> set (changed p c) \<longleftrightarrow>
     (\<exists>a\<in>set p. \<exists>b\<in>set c. j = mk_joined a b \<and> key_match a b \<and>
        (\<exists>f t. servicer a = Some f \<and> servicer b = Some t \<and> f \<noteq> t))"
  unfolding changed_def df_filter_def set_filter set_inner_join col_ne_True
  by fastforce

text \<open>
  C1 (amended). For two consecutive snapshots, there is a loan-level transition record
  for loan \<open>i\<close> from \<open>f\<close> to \<open>t\<close> exactly when \<open>i\<close> is the identifier of a row of each
  snapshot, \<open>f\<close> and \<open>t\<close> are the servicer names of these rows, both names are present, and
  they differ. Every record carries an identifier found in both snapshots, so a loan
  present in one snapshot only produces no record.
\<close>

theorem differencing_transition_set:
  "((\<exists>j\<in>set (changed df_prev df_curr).
        j_loan_id j = Some i \<and> j_servicer_from j = f \<and> j_servicer_to j = t)
      \<longleftrightarrow>
    (\<exists>a\<in>set df_prev. \<exists>b\<in>set df_curr.
        loan_id a = Some i \<and> loan_id b = Some i \<and> servicer a = f \<and> servicer b = t \<and>
        (\<exists>x y. f = Some x \<and> t = Some y \<and> x \<noteq> y)))
   \<and> (\<forall>j\<in>set (changed df_prev df_curr).
        j_loan_id j \<noteq> None \<and> j_loan_id j \<in> loan_id ` set df_prev \<and>
        j_loan_id j \<in> loan_id ` set df_curr)"
proof (intro conjI iffI ballI)
  assume "\<exists>j\<in>set (changed df_prev df_curr).
            j_loan_id j = Some i \<and> j_servicer_from j = f \<and> j_servicer_to j = t"
  then obtain j where j: "j \<in> set (changed df_prev df_curr)" "j_loan_id j = Some i"
    "j_servicer_from j = f" "j_servicer_to j = t" by blast
  from j(1) obtain a b x y where ab: "a \<in> set df_prev" "b \<in> set df_curr" "j = mk_joined a b"
    "key_match a b" "servicer a = Some x" "servicer b = Some y" "x \<noteq> y"
    unfolding changed_iff by blast
  have "loan_id a = Some i" "loan_id b = Some i" "f = Some x" "t = Some y"
    using j ab by (auto simp: key_match_def)
  with ab show "\<exists>a\<in>set df_prev. \<exists>b\<in>set df_curr.
        loan_id a = Some i \<and> loan_id b = Some i \<and> servicer a = f \<and> servicer b = t \<and>
        (\<exists>x y. f = Some x \<and> t = Some y \<and> x \<noteq> y)" by blast
next
  assume "\<exists>a\<in>set df_prev. \<exists>b\<in>set df_curr.
        loan_id a = Some i \<and> loan_id b = Some i \<and> servicer a = f \<and> servicer b = t \<and>
        (\<exists>x y. f = Some x \<and> t = Some y \<and> x \<noteq> y)"
  then obtain a b x y where ab: "a \<in> set df_prev" "b \<in> set df_curr" "loan_id a = Some i"
    "loan_id b = Some i" "servicer a = f" "servicer b = t" "f = Some x" "t = Some y" "x \<noteq> y"
    by blast
  have "key_match a b" using ab by (simp add: key_match_def)
  then have "mk_joined a b \<in> set (changed df_prev df_curr)"
    unfolding changed_iff using ab by blast
  then show "\<exists>j\<in>set (changed df_prev df_curr).
            j_loan_id j = Some i \<and> j_servicer_from j = f \<and> j_servicer_to j = t"
    using ab by (intro bexI[of _ "mk_joined a b"]) simp_all
next
  fix j assume "j \<in> set (changed df_prev df_curr)"
  then obtain a b where ab: "a \<in> set df_prev" "b \<in> set df_curr" "j = mk_joined a b"
    "key_match a b"
    unfolding changed_iff by blast
  then show "j_loan_id j \<noteq> None" "j_loan_id j \<in> loan_id ` set df_prev"
    "j_loan_id j \<in> loan_id ` set df_curr"
    by (auto simp: key_match_def intro: rev_image_eqI)
qed

theorem differencing_transition_set_witness:
  "(\<exists>j\<in>set (changed scen_prev scen_curr).
       j_loan_id j = Some ''L2'' \<and> j_servicer_from j = Some ''A'' \<and> j_servicer_to j = Some ''B'')
   \<and> \<not> (\<exists>j\<in>set (changed scen_prev scen_curr). j_loan_id j = Some ''L1'')
   \<and> \<not> (\<exists>j\<in>set (changed scen_prev scen_curr). j_loan_id j = Some ''L3'')"
proof -
  note t = differencing_transition_set [of scen_prev scen_curr]
  have a: "\<exists>j\<in>set (changed scen_prev scen_curr).
       j_loan_id j = Some ''L2'' \<and> j_servicer_from j = Some ''A'' \<and> j_servicer_to j = Some ''B''"
    using t [of "''L2''" "Some ''A''" "Some ''B''"]
    by (simp add: scen_prev_def scen_curr_def)
  have b: "\<not> (\<exists>j\<in>set (changed scen_prev scen_curr).
       j_loan_id j = Some ''L1'' \<and> j_servicer_from j = f \<and> j_servicer_to j = t)" for f t
    using t [of "''L1''" f t]
    by (auto simp add: scen_prev_def scen_curr_def)
  have c: "\<not> (\<exists>j\<in>set (changed scen_prev scen_curr). j_loan_id j = Some ''L3'')"
    using t [of "''L3''" None None]
    by (auto simp add: scen_prev_def scen_curr_def)
  from a b c show ?thesis by blast
qed

text \<open>
  The claim as stated fails where a servicer name is missing: loan L1 is in both snapshots
  and its servicer entry changes from missing to X, yet no transition record is produced,
  because the comparison of a missing name is itself missing and the filter drops it.
\<close>

theorem differencing_missing_servicer_counterexample:
  "(\<exists>a\<in>set null_prev. \<exists>b\<in>set null_curr.
       loan_id a = Some ''L1'' \<and> loan_id b = Some ''L1'' \<and> servicer a \<noteq> servicer b)
   \<and> changed null_prev null_curr = []"
  by (simp add: null_prev_def null_curr_def changed_def df_filter_def inner_join_def
        key_match_def mk_joined_def)

section \<open>Differencing reconciler: the count denominators\<close>

lemma map_of_map_key:
  "k \<in> set ks \<Longrightarrow> map_of (map (\<lambda>k. (k, f k)) ks) k = Some (f k)"
  by (induction ks) auto

lemma totals_by_servicer_eq:
  "totals_by_servicer df =
     map (\<lambda>k. (k, (col_count (map loan_id (filter (\<lambda>r. servicer r = k) df)),
                   col_sum (map upb (filter (\<lambda>r. servicer r = k) df)))))
         (remdups (map servicer df))"
  by (simp add: totals_by_servicer_def group_by_def)

lemma totals_by_servicer_lookup:
  assumes "a \<in> set df" "servicer a = Some s"
  shows "left_lookup (totals_by_servicer df) (Some s) =
     Some (col_count (map loan_id (filter (\<lambda>r. servicer r = Some s) df)),
           col_sum (map upb (filter (\<lambda>r. servicer r = Some s) df)))"
proof -
  have "Some s \<in> set (remdups (map servicer df))" using assms by force
  then show ?thesis
    unfolding left_lookup_def totals_by_servicer_eq by (simp add: map_of_map_key)
qed

lemma col_count_pos: "Some v \<in> set vs \<Longrightarrow> 1 \<le> col_count vs"
  by (induction vs rule: col_count.induct) auto

lemma servicer_count_pos:
  assumes "a \<in> set df" "servicer a = Some s" "loan_id a = Some i"
  shows "1 \<le> col_count (map loan_id (filter (\<lambda>r. servicer r = Some s) df))"
proof -
  have "Some i \<in> set (map loan_id (filter (\<lambda>r. servicer r = Some s) df))"
    using assms by force
  then show ?thesis by (rule col_count_pos)
qed

text \<open>Every aggregate row comes from a pair of joined rows with two present, different names.\<close>

lemma diff_agg_rowE:
  assumes "w \<in> set (diff_agg m p c)"
  obtains f t a b where
    "w = diff_agg_row m (totals_by_servicer p) (totals_by_servicer c)
           ((Some f, Some t),
            filter (\<lambda>j. (j_servicer_from j, j_servicer_to j) = (Some f, Some t)) (changed p c))"
    "a \<in> set p" "b \<in> set c" "key_match a b" "servicer a = Some f" "servicer b = Some t" "f \<noteq> t"
proof -
  from assms obtain k where
    k: "k \<in> set (map (\<lambda>j. (j_servicer_from j, j_servicer_to j)) (changed p c))"
    and w: "w = diff_agg_row m (totals_by_servicer p) (totals_by_servicer c)
                  (k, filter (\<lambda>j. (j_servicer_from j, j_servicer_to j) = k) (changed p c))"
    by (auto simp: diff_agg_def group_by_def)
  from k obtain j where j: "j \<in> set (changed p c)" "k = (j_servicer_from j, j_servicer_to j)"
    by auto
  from j(1) obtain a b f t where ab: "a \<in> set p" "b \<in> set c" "j = mk_joined a b" "key_match a b"
    "servicer a = Some f" "servicer b = Some t" "f \<noteq> t"
    unfolding changed_iff by blast
  have "k = (Some f, Some t)" using j(2) ab by simp
  with w ab that show thesis by blast
qed

lemma diff_agg_row_sel:
  "seller_total_n (diff_agg_row m S B kg) = map_option fst (left_lookup S (fst (fst kg)))"
  "seller_total_upb (diff_agg_row m S B kg) = map_option snd (left_lookup S (fst (fst kg)))"
  "buyer_total_n (diff_agg_row m S B kg) = map_option fst (left_lookup B (snd (fst kg)))"
  "buyer_total_upb (diff_agg_row m S B kg) = map_option snd (left_lookup B (snd (fst kg)))"
  "n_loans (kept (diff_agg_row m S B kg)) = col_count (map j_loan_id (snd kg))"
  "total_upb (kept (diff_agg_row m S B kg)) = col_sum (map j_upb_to (snd kg))"
  "total_upb_from (diff_agg_row m S B kg) = col_sum (map j_upb_from (snd kg))"
  "servicer_from (kept (diff_agg_row m S B kg)) = fst (fst kg)"
  "servicer_to (kept (diff_agg_row m S B kg)) = snd (fst kg)"
  "transition_month (kept (diff_agg_row m S B kg)) = m"
  by (simp_all add: diff_agg_row_def Let_def)

lemma diff_agg_row_frac:
  "frac_seller_n (kept (diff_agg_row m S B kg)) =
     truediv (Some (of_nat (n_loans (kept (diff_agg_row m S B kg)))))
             (rat_of_count (seller_total_n (diff_agg_row m S B kg)))"
  "frac_buyer_n (kept (diff_agg_row m S B kg)) =
     truediv (Some (of_nat (n_loans (kept (diff_agg_row m S B kg)))))
             (rat_of_count (buyer_total_n (diff_agg_row m S B kg)))"
  "frac_seller_upb (kept (diff_agg_row m S B kg)) =
     truediv (Some (total_upb_from (diff_agg_row m S B kg)))
             (seller_total_upb (diff_agg_row m S B kg))"
  "frac_buyer_upb (kept (diff_agg_row m S B kg)) =
     truediv (Some (total_upb (kept (diff_agg_row m S B kg))))
             (buyer_total_upb (diff_agg_row m S B kg))"
  by (simp_all add: diff_agg_row_def Let_def)

lemma diff_agg_fracs:
  assumes "w \<in> set (diff_agg m p c)"
  shows "frac_seller_n (kept w) =
           truediv (Some (of_nat (n_loans (kept w)))) (rat_of_count (seller_total_n w))"
    and "frac_buyer_n (kept w) =
           truediv (Some (of_nat (n_loans (kept w)))) (rat_of_count (buyer_total_n w))"
    and "frac_seller_upb (kept w) = truediv (Some (total_upb_from w)) (seller_total_upb w)"
    and "frac_buyer_upb (kept w) = truediv (Some (total_upb (kept w))) (buyer_total_upb w)"
  using assms by (auto simp: diff_agg_def diff_agg_row_frac)

lemma diff_count_denominators:
  assumes "w \<in> set (diff_agg m p c)"
  shows "(\<exists>n. seller_total_n w = Some n \<and> 1 \<le> n) \<and> (\<exists>n. buyer_total_n w = Some n \<and> 1 \<le> n)"
proof -
  from assms obtain f t a b where
    w: "w = diff_agg_row m (totals_by_servicer p) (totals_by_servicer c)
           ((Some f, Some t),
            filter (\<lambda>j. (j_servicer_from j, j_servicer_to j) = (Some f, Some t)) (changed p c))"
    and ab: "a \<in> set p" "b \<in> set c" "key_match a b" "servicer a = Some f" "servicer b = Some t"
    by (rule diff_agg_rowE)
  from ab(3) obtain i where i: "loan_id a = Some i" "loan_id b = Some i"
    by (auto simp: key_match_def)
  have s: "seller_total_n w =
             Some (col_count (map loan_id (filter (\<lambda>r. servicer r = Some f) p)))"
    unfolding w by (simp add: diff_agg_row_sel totals_by_servicer_lookup[OF ab(1) ab(4)])
  have b: "buyer_total_n w =
             Some (col_count (map loan_id (filter (\<lambda>r. servicer r = Some t) c)))"
    unfolding w by (simp add: diff_agg_row_sel totals_by_servicer_lookup[OF ab(2) ab(5)])
  show ?thesis
    using s b servicer_count_pos[OF ab(1) ab(4) i(1)] servicer_count_pos[OF ab(2) ab(5) i(2)]
    by simp
qed

text \<open>
  C9. In the differencing reconcilers every aggregate row finds its seller totals and its
  buyer totals, both count denominators are at least 1, and so the two count fractions
  of every row appended to the results are defined numbers (neither missing nor
  non-finite).
\<close>

theorem diff_count_fractions_defined:
  "(\<forall>w\<in>set (diff_agg m df_prev df_curr).
      (\<exists>n. seller_total_n w = Some n \<and> 1 \<le> n) \<and> (\<exists>n. buyer_total_n w = Some n \<and> 1 \<le> n))
   \<and> (\<forall>rows. diff_step m df_prev df_curr = Some rows \<longrightarrow>
        (\<forall>r\<in>set rows. (\<exists>q. frac_seller_n r = Some (Num q)) \<and>
                       (\<exists>q. frac_buyer_n r = Some (Num q))))"
proof (intro conjI ballI allI impI)
  fix w assume "w \<in> set (diff_agg m df_prev df_curr)"
  then show "\<exists>n. seller_total_n w = Some n \<and> 1 \<le> n" "\<exists>n. buyer_total_n w = Some n \<and> 1 \<le> n"
    using diff_count_denominators by blast+
next
  fix rows r
  assume "diff_step m df_prev df_curr = Some rows" "r \<in> set rows"
  then obtain w where w: "w \<in> set (diff_agg m df_prev df_curr)" and r: "r = kept w"
    by (auto simp: diff_step_def split: if_splits)
  from diff_count_denominators[OF w] obtain ns nb where
    n: "seller_total_n w = Some ns" "1 \<le> ns" "buyer_total_n w = Some nb" "1 \<le> nb" by blast
  have "frac_seller_n r = Some (Num (of_nat (n_loans r) / of_nat ns))"
    using n by (simp add: r diff_agg_fracs(1)[OF w] rat_of_count_def)
  moreover have "frac_buyer_n r = Some (Num (of_nat (n_loans r) / of_nat nb))"
    using n by (simp add: r diff_agg_fracs(2)[OF w] rat_of_count_def)
  ultimately show "\<exists>q. frac_seller_n r = Some (Num q)" "\<exists>q. frac_buyer_n r = Some (Num q)"
    by blast+
qed

theorem diff_count_fractions_defined_witness:
  "\<exists>rows. diff_step ''201907'' scen_prev scen_curr = Some rows \<and> rows \<noteq> [] \<and>
     list_all (\<lambda>r. (\<exists>q. frac_seller_n r = Some (Num q)) \<and> (\<exists>q. frac_buyer_n r = Some (Num q)))
       rows"
proof -
  have "diff_step ''201907'' scen_prev scen_curr =
          Some (map kept (diff_agg ''201907'' scen_prev scen_curr))"
    by (simp add: diff_step_def scen_changed)
  moreover have "map kept (diff_agg ''201907'' scen_prev scen_curr) \<noteq> []"
    by (simp add: diff_agg_def group_by_def scen_changed)
  ultimately show ?thesis
    using diff_count_fractions_defined [of "''201907''" scen_prev scen_curr]
    by (simp add: list_all_iff)
qed

section \<open>Flagged-transfer reconciler: totals and the seller book\<close>

lemma left_lookup_map:
  "left_lookup (map (\<lambda>k. (k, f k)) ks) k =
     (if k \<noteq> None \<and> k \<in> set ks then Some (f k) else None)"
  by (cases k) (auto simp: left_lookup_def map_of_map_key map_of_eq_None_iff image_iff)

lemma servicer_totals_eq:
  "servicer_totals cast df =
     map (\<lambda>k. (k, (length (filter (\<lambda>r. col_issuer r = k) df),
                   col_sum (map (upb_dollars cast) (filter (\<lambda>r. col_issuer r = k) df)))))
         (remdups (map col_issuer df))"
  by (simp add: servicer_totals_def group_by_def)

lemma col_sum_Nil_filter: "\<forall>r\<in>set df. \<not> P r \<Longrightarrow> filter P df = []"
  by (induction df) auto

lemma servicer_totals_lookup:
  "left_lookup (servicer_totals cast df) (Some s) =
     (if Some s \<in> col_issuer ` set df
      then Some (length (filter (\<lambda>r. col_issuer r = Some s) df),
                 col_sum (map (upb_dollars cast) (filter (\<lambda>r. col_issuer r = Some s) df)))
      else None)"
  by (simp add: servicer_totals_eq left_lookup_map)

lemma seller_book_eq:
  "seller_book cast df =
     map (\<lambda>k. (k,
        (length (filter (\<lambda>r. col_seller r = k) (transfers df)) +
           (case map_option fst (left_lookup (servicer_totals cast df) k) of None \<Rightarrow> 0 | Some n \<Rightarrow> n),
         col_sum (map (upb_dollars cast) (filter (\<lambda>r. col_seller r = k) (transfers df))) +
           (case map_option snd (left_lookup (servicer_totals cast df) k) of None \<Rightarrow> 0 | Some u \<Rightarrow> u))))
       (remdups (map col_seller (transfers df)))"
  by (simp add: seller_book_def group_by_def Let_def)

lemma seller_book_lookup:
  assumes "r \<in> set (transfers df)" "col_seller r = Some s"
  shows "left_lookup (seller_book cast df) (Some s) =
     Some (length (filter (\<lambda>r. col_seller r = Some s) (transfers df)) +
             length (filter (\<lambda>r. col_issuer r = Some s) df),
           col_sum (map (upb_dollars cast) (filter (\<lambda>r. col_seller r = Some s) (transfers df))) +
             col_sum (map (upb_dollars cast) (filter (\<lambda>r. col_issuer r = Some s) df)))"
proof -
  have k: "Some s \<in> set (remdups (map col_seller (transfers df)))" using assms by force
  show ?thesis
  proof (cases "Some s \<in> col_issuer ` set df")
    case True
    with k show ?thesis
      unfolding seller_book_eq left_lookup_map by (simp add: servicer_totals_lookup)
  next
    case False
    then have "filter (\<lambda>r. col_issuer r = Some s) df = []"
      by (intro col_sum_Nil_filter) force
    with k False show ?thesis
      unfolding seller_book_eq left_lookup_map by (simp add: servicer_totals_lookup)
  qed
qed

lemma transfers_seller: "r \<in> set (transfers df) \<Longrightarrow> \<exists>s. col_seller r = Some s \<and> strip_chars s \<noteq> []"
  by (auto simp: transfers_def is_transfer_def split: option.splits)

lemma gnma_agg_rowE:
  assumes "w \<in> set (gnma_agg cast nm m df)"
  obtains r s where
    "w = gnma_agg_row cast nm m (servicer_totals cast df) (seller_book cast df)
           ((Some s, col_issuer r),
            filter (\<lambda>x. (col_seller x, col_issuer x) = (Some s, col_issuer r)) (transfers df))"
    "r \<in> set (transfers df)" "col_seller r = Some s" "strip_chars s \<noteq> []"
proof -
  from assms obtain k where
    k: "k \<in> set (map (\<lambda>r. (col_seller r, col_issuer r)) (transfers df))"
    and w: "w = gnma_agg_row cast nm m (servicer_totals cast df) (seller_book cast df)
                  (k, filter (\<lambda>x. (col_seller x, col_issuer x) = k) (transfers df))"
    by (auto simp: gnma_agg_def group_by_def)
  from k obtain r where r: "r \<in> set (transfers df)" "k = (col_seller r, col_issuer r)" by auto
  from transfers_seller[OF r(1)] obtain s where s: "col_seller r = Some s" "strip_chars s \<noteq> []"
    by blast
  with w r that show thesis by simp
qed

lemma gnma_agg_row_sel:
  "seller_total_n (gnma_agg_row cast nm m T K kg) = map_option fst (left_lookup K (fst (fst kg)))"
  "seller_total_upb (gnma_agg_row cast nm m T K kg) = map_option snd (left_lookup K (fst (fst kg)))"
  "buyer_total_n (gnma_agg_row cast nm m T K kg) = map_option fst (left_lookup T (snd (fst kg)))"
  "buyer_total_upb (gnma_agg_row cast nm m T K kg) = map_option snd (left_lookup T (snd (fst kg)))"
  "n_loans (kept (gnma_agg_row cast nm m T K kg)) = length (snd kg)"
  "total_upb (kept (gnma_agg_row cast nm m T K kg)) = col_sum (map (upb_dollars cast) (snd kg))"
  "seller_issuer_id (kept (gnma_agg_row cast nm m T K kg)) = fst (fst kg)"
  "issuer_id (kept (gnma_agg_row cast nm m T K kg)) = snd (fst kg)"
  "transition_month (kept (gnma_agg_row cast nm m T K kg)) = m"
  by (simp_all add: gnma_agg_row_def Let_def)

lemma gnma_agg_row_frac:
  "frac_seller_n (kept (gnma_agg_row cast nm m T K kg)) =
     truediv (Some (of_nat (n_loans (kept (gnma_agg_row cast nm m T K kg)))))
             (rat_of_count (seller_total_n (gnma_agg_row cast nm m T K kg)))"
  "frac_buyer_n (kept (gnma_agg_row cast nm m T K kg)) =
     truediv (Some (of_nat (n_loans (kept (gnma_agg_row cast nm m T K kg)))))
             (rat_of_count (buyer_total_n (gnma_agg_row cast nm m T K kg)))"
  "frac_seller_upb (kept (gnma_agg_row cast nm m T K kg)) =
     truediv (Some (total_upb (kept (gnma_agg_row cast nm m T K kg))))
             (seller_total_upb (gnma_agg_row cast nm m T K kg))"
  "frac_buyer_upb (kept (gnma_agg_row cast nm m T K kg)) =
     truediv (Some (total_upb (kept (gnma_agg_row cast nm m T K kg))))
             (buyer_total_upb (gnma_agg_row cast nm m T K kg))"
  by (simp_all add: gnma_agg_row_def Let_def)

lemma gnma_agg_fracs:
  assumes "w \<in> set (gnma_agg cast nm m df)"
  shows "frac_seller_n (kept w) =
           truediv (Some (of_nat (n_loans (kept w)))) (rat_of_count (seller_total_n w))"
    and "frac_buyer_n (kept w) =
           truediv (Some (of_nat (n_loans (kept w)))) (rat_of_count (buyer_total_n w))"
    and "frac_seller_upb (kept w) = truediv (Some (total_upb (kept w))) (seller_total_upb w)"
    and "frac_buyer_upb (kept w) = truediv (Some (total_upb (kept w))) (buyer_total_upb w)"
  using assms by (auto simp: gnma_agg_def gnma_agg_row_frac)

lemma gnma_agg_has_key:
  assumes "r \<in> set (transfers df)"
  shows "\<exists>w\<in>set (gnma_agg cast nm m df).
           seller_issuer_id (kept w) = col_seller r \<and> issuer_id (kept w) = col_issuer r"
proof -
  let ?k = "(col_seller r, col_issuer r)"
  let ?w = "gnma_agg_row cast nm m (servicer_totals cast df) (seller_book cast df)
              (?k, filter (\<lambda>x. (col_seller x, col_issuer x) = ?k) (transfers df))"
  have k: "?k \<in> set (remdups (map (\<lambda>r. (col_seller r, col_issuer r)) (transfers df)))"
    using assms by force
  have "?w \<in> (\<lambda>k. gnma_agg_row cast nm m (servicer_totals cast df) (seller_book cast df)
                  (k, filter (\<lambda>x. (col_seller x, col_issuer x) = k) (transfers df))) `
              set (remdups (map (\<lambda>r. (col_seller r, col_issuer r)) (transfers df)))"
    using k by (rule imageI)
  also have "\<dots> = set (gnma_agg cast nm m df)"
    unfolding gnma_agg_def group_by_def set_map image_image ..
  finally have "?w \<in> set (gnma_agg cast nm m df)" .
  then show ?thesis by (intro bexI[of _ ?w]) (simp_all add: gnma_agg_row_sel)
qed

lemma seller_book_rows:
  "\<forall>w\<in>set (gnma_agg cast name_map month df_month).
     \<exists>s. seller_issuer_id (kept w) = Some s \<and>
       seller_total_n w =
         Some (length (filter (\<lambda>r. col_issuer r = Some s) df_month) +
               length (filter (\<lambda>r. col_seller r = Some s) (transfers df_month))) \<and>
       seller_total_upb w =
         Some (col_sum (map (upb_dollars cast) (filter (\<lambda>r. col_issuer r = Some s) df_month)) +
               col_sum (map (upb_dollars cast)
                          (filter (\<lambda>r. col_seller r = Some s) (transfers df_month)))) \<and>
       frac_seller_n (kept w) =
         truediv (Some (of_nat (n_loans (kept w)))) (rat_of_count (seller_total_n w)) \<and>
       frac_seller_upb (kept w) = truediv (Some (total_upb (kept w))) (seller_total_upb w)"
proof
  fix w assume w: "w \<in> set (gnma_agg cast name_map month df_month)"
  then obtain r s where
    weq: "w = gnma_agg_row cast name_map month (servicer_totals cast df_month)
           (seller_book cast df_month)
           ((Some s, col_issuer r),
            filter (\<lambda>x. (col_seller x, col_issuer x) = (Some s, col_issuer r)) (transfers df_month))"
    and r: "r \<in> set (transfers df_month)" "col_seller r = Some s"
    by (rule gnma_agg_rowE)
  have "seller_issuer_id (kept w) = Some s" unfolding weq by (simp add: gnma_agg_row_sel)
  moreover have "seller_total_n w =
         Some (length (filter (\<lambda>r. col_issuer r = Some s) df_month) +
               length (filter (\<lambda>r. col_seller r = Some s) (transfers df_month)))"
    unfolding weq by (simp add: gnma_agg_row_sel seller_book_lookup[OF r])
  moreover have "seller_total_upb w =
         Some (col_sum (map (upb_dollars cast) (filter (\<lambda>r. col_issuer r = Some s) df_month)) +
               col_sum (map (upb_dollars cast)
                          (filter (\<lambda>r. col_seller r = Some s) (transfers df_month))))"
    unfolding weq by (simp add: gnma_agg_row_sel seller_book_lookup[OF r])
  ultimately show "\<exists>s. seller_issuer_id (kept w) = Some s \<and>
       seller_total_n w =
         Some (length (filter (\<lambda>r. col_issuer r = Some s) df_month) +
               length (filter (\<lambda>r. col_seller r = Some s) (transfers df_month))) \<and>
       seller_total_upb w =
         Some (col_sum (map (upb_dollars cast) (filter (\<lambda>r. col_issuer r = Some s) df_month)) +
               col_sum (map (upb_dollars cast)
                          (filter (\<lambda>r. col_seller r = Some s) (transfers df_month)))) \<and>
       frac_seller_n (kept w) =
         truediv (Some (of_nat (n_loans (kept w)))) (rat_of_count (seller_total_n w)) \<and>
       frac_seller_upb (kept w) = truediv (Some (total_upb (kept w))) (seller_total_upb w)"
    using gnma_agg_fracs(1,3)[OF w] by blast
qed

text \<open>
  C2. Every seller identity appearing in a month's transfer rows has an aggregate row, and
  for every aggregate row the seller-side denominators are: the number (balance) of rows of
  the month whose current issuer is the row's seller identity, which is 0 when that
  identity holds no current loan, plus the number (balance) of transfer rows of the month
  whose seller is that identity; the two seller-side fractions divide by exactly these
  denominators.
\<close>

theorem seller_book_reconstruction:
  "(\<forall>r\<in>set (transfers df_month).
      \<exists>w\<in>set (gnma_agg cast name_map month df_month).
         seller_issuer_id (kept w) = col_seller r \<and> issuer_id (kept w) = col_issuer r)
   \<and> (\<forall>w\<in>set (gnma_agg cast name_map month df_month).
     \<exists>s. seller_issuer_id (kept w) = Some s \<and>
       seller_total_n w =
         Some (length (filter (\<lambda>r. col_issuer r = Some s) df_month) +
               length (filter (\<lambda>r. col_seller r = Some s) (transfers df_month))) \<and>
       seller_total_upb w =
         Some (col_sum (map (upb_dollars cast) (filter (\<lambda>r. col_issuer r = Some s) df_month)) +
               col_sum (map (upb_dollars cast)
                          (filter (\<lambda>r. col_seller r = Some s) (transfers df_month)))) \<and>
       frac_seller_n (kept w) =
         truediv (Some (of_nat (n_loans (kept w)))) (rat_of_count (seller_total_n w)) \<and>
       frac_seller_upb (kept w) = truediv (Some (total_upb (kept w))) (seller_total_upb w))"
  using gnma_agg_has_key [of _ df_month cast name_map month]
        seller_book_rows [of cast name_map month df_month]
  by blast

theorem seller_book_reconstruction_witness:
  "gnma_agg cast_decimal Map.empty ''201504'' flag_month \<noteq> [] \<and>
   list_all (\<lambda>w. seller_issuer_id (kept w) = Some ''X'' \<and> seller_total_n w = Some (1 + 1) \<and>
                 seller_total_upb w = Some (0 + 2469 / 20) \<and>
                 frac_seller_n (kept w) = Some (Num (1 / 2)))
     (gnma_agg cast_decimal Map.empty ''201504'' flag_month)"
  using seller_book_reconstruction
    [where cast = cast_decimal and name_map = Map.empty and month = "''201504''"
       and df_month = flag_month]
  by (simp add: flag_agg)

section \<open>The final sort\<close>

lemma row_le_total: "\<not> row_le a b \<Longrightarrow> row_le b a"
  by (auto simp: row_le_def)

lemma row_le_trans: "row_le a b \<Longrightarrow> row_le b c \<Longrightarrow> row_le a c"
  by (auto simp: row_le_def)

lemma row_le_antisym: "row_le a b \<Longrightarrow> row_le b a \<Longrightarrow> a = b"
  by (auto simp: row_le_def prod_eq_iff)

lemma row_le_refl: "row_le a a"
  by (simp add: row_le_def)

lemma mset_insert_row: "mset (insert_row key x ys) = add_mset x (mset ys)"
  by (induction ys) auto

lemma set_insert_row: "set (insert_row key x ys) = insert x (set ys)"
  by (induction ys) auto

lemma sorted_insert_row:
  "sorted_wrt (\<lambda>a b. row_le (key a) (key b)) ys \<Longrightarrow>
   sorted_wrt (\<lambda>a b. row_le (key a) (key b)) (insert_row key x ys)"
proof (induction ys)
  case Nil
  then show ?case by simp
next
  case (Cons y ys)
  show ?case
  proof (cases "row_le (key x) (key y)")
    case True
    then show ?thesis using Cons.prems by (auto intro: row_le_trans)
  next
    case False
    then have "row_le (key y) (key x)" by (rule row_le_total)
    then show ?thesis using False Cons by (auto simp: set_insert_row)
  qed
qed

lemma stable_sort_contract: "sort_contract key (stable_sort key)"
proof -
  have "mset (stable_sort key xs) = mset xs \<and>
        sorted_wrt (\<lambda>a b. row_le (key a) (key b)) (stable_sort key xs)" for xs
    unfolding stable_sort_def
    by (induction xs) (simp_all add: mset_insert_row sorted_insert_row)
  then show ?thesis by (simp add: sort_contract_def)
qed

lemma reversing_sort_contract: "sort_contract key (reversing_sort key)"
  using stable_sort_contract[of key] by (simp add: sort_contract_def reversing_sort_def)

lemma sort_contract_set: "sort_contract key srt \<Longrightarrow> set (srt xs) = set xs"
proof -
  assume "sort_contract key srt"
  then have "mset (srt xs) = mset xs" by (simp add: sort_contract_def)
  then show ?thesis by (rule mset_eq_setD)
qed

text \<open>Two sorted rearrangements of the same rows show the same sequence of sort keys.\<close>

lemma sorted_keys_unique:
  assumes "sorted_wrt (\<lambda>a b. row_le a b) ks" "sorted_wrt (\<lambda>a b. row_le a b) ls" "mset ks = mset ls"
  shows "ks = ls"
  using assms
proof (induction ks arbitrary: ls)
  case Nil
  then show ?case by simp
next
  case (Cons k ks)
  then obtain l ls' where ls: "ls = l # ls'" by (cases ls) auto
  have "k \<in> set ls" using Cons.prems(3) by (metis list.set_intros(1) mset_eq_setD)
  then have 1: "row_le l k" using Cons.prems(2) ls by (auto simp: row_le_refl)
  have "l \<in> set (k # ks)" using Cons.prems(3) ls by (metis list.set_intros(1) mset_eq_setD)
  then have 2: "row_le k l" using Cons.prems(1) by (auto simp: row_le_refl)
  from 1 2 have kl: "k = l" by (rule row_le_antisym[rotated])
  then have "mset ks = mset ls'" using Cons.prems(3) ls by simp
  then have "ks = ls'" using Cons.IH Cons.prems(1,2) ls by simp
  with kl ls show ?case by simp
qed

lemma sort_contract_keys:
  assumes "sort_contract key s1" "sort_contract key s2"
  shows "mset (s1 xs) = mset (s2 xs) \<and> map key (s1 xs) = map key (s2 xs)"
proof -
  have m: "mset (s1 xs) = mset (s2 xs)" using assms by (simp add: sort_contract_def)
  have a: "sorted_wrt (\<lambda>a b. row_le a b) (map key (s1 xs))"
    using assms(1) by (simp add: sort_contract_def sorted_wrt_map)
  have b: "sorted_wrt (\<lambda>a b. row_le a b) (map key (s2 xs))"
    using assms(2) by (simp add: sort_contract_def sorted_wrt_map)
  have "mset (map key (s1 xs)) = mset (map key (s2 xs))" using m by (metis mset_map)
  with a b m show ?thesis using sorted_keys_unique by blast
qed

section \<open>Deduplication\<close>

lemma set_unique_first: "set (unique_first xs) \<subseteq> set xs"
  by (induction xs rule: unique_first.induct) auto

lemma keys_unique_first: "dedup_key ` set (unique_first xs) = dedup_key ` set xs"
proof (induction xs rule: unique_first.induct)
  case 1
  then show ?case by simp
next
  case (2 r rs)
  have "dedup_key ` set (r # rs) =
          insert (dedup_key r) (dedup_key ` set (filter (\<lambda>x. dedup_key x \<noteq> dedup_key r) rs))"
    by auto
  with 2 show ?case by simp
qed

lemma distinct_unique_first: "distinct (map dedup_key (unique_first xs))"
proof (induction xs rule: unique_first.induct)
  case 1
  then show ?case by simp
next
  case (2 r rs)
  have "dedup_key r \<notin> dedup_key ` set (unique_first (filter (\<lambda>x. dedup_key x \<noteq> dedup_key r) rs))"
    unfolding keys_unique_first by auto
  with 2 show ?case by simp
qed

lemma unique_first_contract: "unique_contract unique_first"
  by (simp add: unique_contract_def set_unique_first keys_unique_first distinct_unique_first)

lemma unique_last_contract: "unique_contract unique_last"
  using set_unique_first[of "rev xs" for xs] 
  by (simp add: unique_contract_def unique_last_def keys_unique_first distinct_unique_first distinct_rev rev_map[symmetric])

section \<open>Loading and fatal errors\<close>

lemma month_frames_unreadable: "Unreadable \<in> set fs \<Longrightarrow> month_frames fs = Inl ReadError"
proof (induction fs)
  case Nil
  then show ?case by simp
next
  case (Cons f fs)
  then show ?case by (cases f) auto
qed

lemma month_frames_Inr:
  "month_frames fs = Inr frames \<Longrightarrow>
     Unreadable \<notin> set fs \<and> set frames = {rows. Frame rows \<in> set fs}"
proof (induction fs arbitrary: frames)
  case Nil
  then show ?case by simp
next
  case (Cons f fs)
  show ?case
  proof (cases f)
    case Unreadable
    then show ?thesis using Cons.prems by simp
  next
    case NoLoanColumn
    then have "month_frames fs = Inr frames" using Cons.prems by simp
    from Cons.IH[OF this] show ?thesis using NoLoanColumn by simp
  next
    case (Frame rows)
    then obtain frames' where f: "month_frames fs = Inr frames'" "frames = rows # frames'"
      using Cons.prems by (cases "month_frames fs") auto
    from Cons.IH[OF f(1)] show ?thesis using Frame f(2) by auto
  qed
qed

lemma month_frames_no_column:
  "\<forall>f\<in>set fs. f = NoLoanColumn \<Longrightarrow> month_frames fs = Inr []"
  by (induction fs) auto

lemma load_month_fatal:
  "Unreadable \<in> set fs \<or> (\<forall>f\<in>set fs. f = NoLoanColumn) \<Longrightarrow> \<exists>e. load_month uniq fs = Inl e"
  by (auto simp: load_month_def month_frames_unreadable month_frames_no_column)

lemma gnma_loop_fatal:
  "(m, fs) \<in> set months \<Longrightarrow> load_month uniq fs = Inl e \<Longrightarrow>
   \<exists>e'. gnma_loop uniq cast nm months = Inl e'"
proof (induction months)
  case Nil
  then show ?case by simp
next
  case (Cons a months)
  obtain m' fs' where a: "a = (m', fs')" by (cases a)
  show ?case
  proof (cases "load_month uniq fs'")
    case (Inl e0)
    then show ?thesis by (simp add: a)
  next
    case (Inr df)
    then have "(m, fs) \<in> set months" using Cons.prems a by auto
    then obtain e' where "gnma_loop uniq cast nm months = Inl e'" using Cons by blast
    then show ?thesis by (simp add: a Inr)
  qed
qed

lemma diff_loop_fatal:
  "(m, None) \<in> set rest \<Longrightarrow> \<exists>e. diff_loop df_prev rest = Inl e"
proof (induction rest arbitrary: df_prev)
  case Nil
  then show ?case by simp
next
  case (Cons a rest)
  obtain m' f' where a: "a = (m', f')" by (cases a)
  show ?case
  proof (cases f')
    case None
    then show ?thesis by (simp add: a)
  next
    case (Some df)
    then have "(m, None) \<in> set rest" using Cons.prems a by auto
    then obtain e where "diff_loop df rest = Inl e" using Cons.IH by blast
    then show ?thesis by (simp add: a Some)
  qed
qed

text \<open>
  C7 (amended). If the source of any period cannot be read, the run ends in an exception
  and writes nothing: in the differencing scripts when any monthly file fails to load, in
  the flagged-transfer script when any file of any month cannot be scanned, or when a
  month is left with no frame at all. A source that is readable but holds no row is not an
  error.
\<close>

theorem unreadable_source_is_fatal:
  "((\<exists>m. (m, None) \<in> set files) \<longrightarrow> (\<exists>e. diff_main srt files = Inl e)) \<and>
   ((\<exists>m fs. (m, fs) \<in> set months \<and> (Unreadable \<in> set fs \<or> (\<forall>f\<in>set fs. f = NoLoanColumn))) \<longrightarrow>
      (\<exists>e. gnma_main uniq srt' cast name_map months = Inl e))"
proof (intro conjI impI)
  assume "\<exists>m. (m, None) \<in> set files"
  then obtain m where m: "(m, None) \<in> set files" by blast
  then obtain m0 f0 rest where files: "files = (m0, f0) # rest" by (cases files) auto
  show "\<exists>e. diff_main srt files = Inl e"
  proof (cases f0)
    case None
    then show ?thesis by (simp add: diff_main_def files)
  next
    case (Some df0)
    then have "(m, None) \<in> set rest" using m files by auto
    then obtain e where "diff_loop df0 rest = Inl e" using diff_loop_fatal by blast
    then show ?thesis by (simp add: diff_main_def files Some)
  qed
next
  assume "\<exists>m fs. (m, fs) \<in> set months \<and> (Unreadable \<in> set fs \<or> (\<forall>f\<in>set fs. f = NoLoanColumn))"
  then obtain m fs where m: "(m, fs) \<in> set months"
    "Unreadable \<in> set fs \<or> (\<forall>f\<in>set fs. f = NoLoanColumn)" by blast
  from load_month_fatal[OF m(2)] obtain e where "load_month uniq fs = Inl e" by blast
  from gnma_loop_fatal[OF m(1) this] obtain e' where "gnma_loop uniq cast name_map months = Inl e'"
    by blast
  moreover have "months \<noteq> []" using m by auto
  ultimately show "\<exists>e. gnma_main uniq srt' cast name_map months = Inl e"
    by (simp add: gnma_main_def)
qed

theorem unreadable_source_is_fatal_witness:
  "(\<exists>e. diff_main (stable_sort sort_key) [(''201906'', Some scen_prev), (''201907'', None)] = Inl e) \<and>
   (\<exists>e. gnma_main unique_first (stable_sort sort_key) cast_decimal Map.empty
          [(''201504'', [Frame flag_month]), (''201505'', [Frame flag_month, Unreadable])] = Inl e)"
proof -
  note t = unreadable_source_is_fatal
    [where files = "[(''201906'', Some scen_prev), (''201907'', None)]"
       and months = "[(''201504'', [Frame flag_month]), (''201505'', [Frame flag_month, Unreadable])]"
       and srt = "stable_sort sort_key" and uniq = unique_first and srt' = "stable_sort sort_key"
       and cast = cast_decimal and name_map = Map.empty]
  have a: "\<exists>m. (m, None) \<in> set [(''201906'', Some scen_prev), (''201907'', None)]"
    by (intro exI[of _ "''201907''"]) simp
  have b: "\<exists>m fs. (m, fs) \<in> set [(''201504'', [Frame flag_month]),
                                   (''201505'', [Frame flag_month, Unreadable])] \<and>
             (Unreadable \<in> set fs \<or> (\<forall>f\<in>set fs. f = NoLoanColumn))"
    by (intro exI[of _ "''201505''"] exI[of _ "[Frame flag_month, Unreadable]"]) simp
  from t a b show ?thesis by blast
qed

text \<open>
  The claim as stated fails for empty sources: a month whose file is readable and holds no
  row is passed over without any error, and the rows of the other months are written.
\<close>

theorem empty_period_counterexample:
  "diff_main (stable_sort sort_key)
     [(''201906'', Some scen_prev), (''201907'', Some scen_curr), (''201908'', Some [])]
     = Inr (Some [scen_row])
   \<and> gnma_main unique_first (stable_sort sort_key) cast_decimal Map.empty
     [(''201504'', [Frame flag_month]), (''201505'', [Frame []])] = Inr (Some [flag_row])"
  by (simp add: diff_main_def scen_step empty_step stable_sort_def gnma_main_def load_month_def
      unique_first_flag flag_step)

section \<open>Deduplication with precedence\<close>

text \<open>
  C4 (amended). Merging the physical sources of one period yields exactly one row per
  (pool identifier, loan sequence) key that occurs in any source, and every kept row is a
  row of one of the sources; which of the rows sharing a key is kept is not determined.
\<close>

theorem dedup_one_row_per_key:
  assumes "unique_contract uniq" and "load_month uniq fs = Inr df_month"
  shows "distinct (map dedup_key df_month) \<and>
         (\<forall>r\<in>set df_month. \<exists>rows. Frame rows \<in> set fs \<and> r \<in> set rows) \<and>
         (\<forall>rows r. Frame rows \<in> set fs \<and> r \<in> set rows \<longrightarrow>
             (\<exists>r'\<in>set df_month. dedup_key r' = dedup_key r))"
proof -
  from assms(2) obtain frames where f: "month_frames fs = Inr frames"
    and df: "df_month = uniq (concat frames)"
    by (auto simp: load_month_def split: sum.splits if_splits)
  from month_frames_Inr[OF f] have s: "set frames = {rows. Frame rows \<in> set fs}" by simp
  have u: "distinct (map dedup_key df_month)" "set df_month \<subseteq> set (concat frames)"
    "dedup_key ` set df_month = dedup_key ` set (concat frames)"
    using assms(1) unfolding unique_contract_def df by blast+
  have a: "\<forall>r\<in>set df_month. \<exists>rows. Frame rows \<in> set fs \<and> r \<in> set rows"
    using u(2) s by auto
  have b: "\<forall>rows r. Frame rows \<in> set fs \<and> r \<in> set rows \<longrightarrow>
             (\<exists>r'\<in>set df_month. dedup_key r' = dedup_key r)"
  proof (intro allI impI)
    fix rows r assume "Frame rows \<in> set fs \<and> r \<in> set rows"
    then have "r \<in> set (concat frames)" using s by auto
    then have "dedup_key r \<in> dedup_key ` set df_month" unfolding u(3) by simp
    then show "\<exists>r'\<in>set df_month. dedup_key r' = dedup_key r" by auto
  qed
  from u(1) a b show ?thesis by blast
qed

theorem dedup_one_row_per_key_witness:
  "\<exists>df. load_month unique_last [Frame [dup_early], Frame [dup_late]] = Inr df \<and>
        distinct (map dedup_key df) \<and>
        list_all (\<lambda>r. \<exists>rows. Frame rows \<in> set [Frame [dup_early], Frame [dup_late]] \<and> r \<in> set rows) df \<and>
        (\<exists>r'\<in>set df. dedup_key r' = dedup_key dup_early)"
proof -
  note t = dedup_one_row_per_key [OF unique_last_contract dup_load(2)]
  from t have a: "distinct (map dedup_key [dup_late])" by blast
  from t have b: "list_all (\<lambda>r. \<exists>rows. Frame rows \<in> set [Frame [dup_early], Frame [dup_late]] \<and>
                                r \<in> set rows) [dup_late]"
    unfolding list_all_iff by blast
  from t have "Frame [dup_early] \<in> set [Frame [dup_early], Frame [dup_late]] \<and>
               dup_early \<in> set [dup_early] \<longrightarrow>
               (\<exists>r'\<in>set [dup_late]. dedup_key r' = dedup_key dup_early)"
    by blast
  then have c: "\<exists>r'\<in>set [dup_late]. dedup_key r' = dedup_key dup_early" by simp
  from a b c dup_load(2) show ?thesis by blast
qed

text \<open>
  The claim as stated fails: keeping, for a duplicate key, the row of the earlier source is
  within what the call to \<open>unique\<close> may do.
\<close>

theorem dedup_keeps_earlier_counterexample:
  "unique_contract unique_first \<and> dedup_key dup_early = dedup_key dup_late \<and>
   dup_early \<noteq> dup_late \<and>
   load_month unique_first [Frame [dup_early], Frame [dup_late]] = Inr [dup_early]"
  by (simp add: unique_first_contract dup_load) (simp add: dedup_key_def dup_early_def dup_late_def)

section \<open>Flagged-transfer reconciler: a seller equal to the issuer\<close>

lemma gnma_main_single:
  assumes "load_month uniq fs = Inr df" "transfers df \<noteq> []"
  shows "gnma_main uniq srt cast nm [(m, fs)] = Inr (Some (srt (map kept (gnma_agg cast nm m df))))"
  using assms by (simp add: gnma_main_def gnma_step_def)

text \<open>
  C10. The flagged-transfer reconciler does not require the prior servicer to differ from
  the current issuer: whenever the loaded month holds a loan whose non-blank seller field
  equals its issuer, the output of a single-period run contains an aggregate row whose
  origin identity equals its destination identity. The witness is such an input.
\<close>

theorem flagged_self_transfer:
  assumes "sort_contract sort_key srt" and "load_month uniq fs = Inr df_month"
    and "r \<in> set df_month" and "col_seller r = Some s" and "strip_chars s \<noteq> []"
    and "col_issuer r = Some s"
  shows "\<exists>out. gnma_main uniq srt cast name_map [(month, fs)] = Inr (Some out) \<and>
           (\<exists>row\<in>set out. seller_issuer_id row = Some s \<and> issuer_id row = Some s)"
proof -
  have tr: "r \<in> set (transfers df_month)"
    using assms(3,4,5) by (simp add: transfers_def is_transfer_def)
  then have ne: "transfers df_month \<noteq> []" by auto
  from gnma_agg_has_key[OF tr] obtain w where
    w: "w \<in> set (gnma_agg cast name_map month df_month)"
       "seller_issuer_id (kept w) = Some s" "issuer_id (kept w) = Some s"
    using assms(4,6) by force
  let ?out = "srt (map kept (gnma_agg cast name_map month df_month))"
  have "kept w \<in> set ?out"
    using w(1) sort_contract_set[OF assms(1)] by simp
  with w(2,3) gnma_main_single[OF assms(2) ne] show ?thesis by blast
qed

theorem flagged_self_transfer_witness:
  "\<exists>out. gnma_main unique_first (stable_sort sort_key) cast_decimal Map.empty
            [(''201504'', [Frame self_month])] = Inr (Some out) \<and>
         (\<exists>row\<in>set out. seller_issuer_id row = Some ''X'' \<and> issuer_id row = Some ''X'')"
proof -
  have r: "\<lparr>col_pool = Some ''P1'', col_loan = Some ''1'', col_issuer = Some ''X'',
      col_seller = Some ''X'', col_upb = Some ''10000''\<rparr> \<in> set self_month"
    by (simp add: self_month_def)
  show ?thesis
    using flagged_self_transfer [OF stable_sort_contract self_load r, of "''X''"]
    by (simp add: strip_simps)
qed

section \<open>Output order\<close>

lemma sorted_rows_period_count:
  assumes "sorted_wrt (\<lambda>a b. row_le (sort_key a) (sort_key b)) out"
  shows "period_count_sorted out"
  unfolding period_count_sorted_def
proof (intro allI impI)
  fix i j assume "i < j \<and> j < length out"
  then have "row_le (sort_key (out ! i)) (sort_key (out ! j))"
    using assms by (simp add: sorted_wrt_iff_nth_less)
  then show "transition_month (out ! i) \<le> transition_month (out ! j) \<and>
        (transition_month (out ! i) = transition_month (out ! j) \<longrightarrow>
           n_loans (out ! j) \<le> n_loans (out ! i))"
    by (auto simp: row_le_def sort_key_def)
qed

lemma diff_main_SomeD:
  "diff_main srt files = Inr (Some out) \<Longrightarrow> \<exists>xs. out = srt xs"
  by (auto simp: diff_main_def split: list.splits option.splits sum.splits if_splits)

lemma gnma_main_SomeD:
  "gnma_main uniq srt cast nm months = Inr (Some out) \<Longrightarrow> \<exists>xs. out = srt xs"
  by (auto simp: gnma_main_def split: sum.splits if_splits)

text \<open>
  C8. The rows written by either pipeline are non-decreasing in period token and, among
  rows of equal period, non-increasing in loan count, whatever sort honouring the library
  contract is used.
\<close>

theorem output_sorted:
  "(sort_contract sort_key srt \<and> diff_main srt files = Inr (Some out) \<longrightarrow>
      period_count_sorted out) \<and>
   (sort_contract sort_key srt' \<and> gnma_main uniq srt' cast name_map months = Inr (Some out') \<longrightarrow>
      period_count_sorted out')"
proof (intro conjI impI)
  assume a: "sort_contract sort_key srt \<and> diff_main srt files = Inr (Some out)"
  then obtain xs where "out = srt xs" using diff_main_SomeD by blast
  with a have "sorted_wrt (\<lambda>a b. row_le (sort_key a) (sort_key b)) out"
    by (simp add: sort_contract_def)
  then show "period_count_sorted out" by (rule sorted_rows_period_count)
next
  assume a: "sort_contract sort_key srt' \<and>
             gnma_main uniq srt' cast name_map months = Inr (Some out')"
  then obtain xs where "out' = srt' xs" using gnma_main_SomeD by blast
  with a have "sorted_wrt (\<lambda>a b. row_le (sort_key a) (sort_key b)) out'"
    by (simp add: sort_contract_def)
  then show "period_count_sorted out'" by (rule sorted_rows_period_count)
qed

theorem output_sorted_witness:
  "diff_main (stable_sort sort_key)
     [(''201906'', Some scen_prev), (''201907'', Some scen_curr), (''201908'', Some scen_next)]
     = Inr (Some [scen_row, row_BC, row_AB])
   \<and> period_count_sorted [scen_row, row_BC, row_AB]
   \<and> gnma_main unique_first (stable_sort sort_key) cast_decimal Map.empty
        [(''201504'', [Frame tie_month])] = Inr (Some [row_XY, row_ZY])
   \<and> period_count_sorted [row_XY, row_ZY]"
proof -
  note t = output_sorted
    [where srt = "stable_sort sort_key" and srt' = "stable_sort sort_key"
       and files = "[(''201906'', Some scen_prev), (''201907'', Some scen_curr),
                     (''201908'', Some scen_next)]"
       and out = "[scen_row, row_BC, row_AB]"
       and uniq = unique_first and cast = cast_decimal and name_map = Map.empty
       and months = "[(''201504'', [Frame tie_month])]" and out' = "[row_XY, row_ZY]"]
  have c1: "sort_contract sort_key (stable_sort sort_key :: transition list \<Rightarrow> transition list)"
    by (rule stable_sort_contract)
  have c2: "sort_contract sort_key (stable_sort sort_key :: gnma_out list \<Rightarrow> gnma_out list)"
    by (rule stable_sort_contract)
  from t c1 c2 three_months_main tie_main_stable show ?thesis by blast
qed

section \<open>Balance parsing and missing balances\<close>

lemma col_sum_present:
  "col_sum (map f g) = sum_list (map (\<lambda>r. the (f r)) (filter (\<lambda>r. f r \<noteq> None) g))"
proof (induction g)
  case Nil
  then show ?case by simp
next
  case (Cons a g)
  then show ?case by (cases "f a") simp_all
qed

lemma upb_dollars_None_iff:
  "upb_dollars cast r = None \<longleftrightarrow>
     (col_upb r = None \<or>
      (\<exists>s. col_upb r = Some s \<and> (strip_chars s = [] \<or> cast (strip_chars s) = None)))"
  by (cases "col_upb r") (auto simp: upb_dollars_def Let_def)

text \<open>
  C5. A balance field parses to the missing value exactly when it is missing, empty after
  stripping, or not readable as a number, so never to zero in these cases; and every sum
  aggregate (the per-issuer totals and the per-transition sums) is the sum over the rows
  whose balance is present.
\<close>

theorem missing_balance_excluded:
  "(upb_dollars cast r = None \<longleftrightarrow>
     (col_upb r = None \<or>
      (\<exists>s. col_upb r = Some s \<and> (strip_chars s = [] \<or> cast (strip_chars s) = None))))
   \<and> (\<forall>(k, n, u)\<in>set (servicer_totals cast df_month).
        u = sum_list (map (\<lambda>r. the (upb_dollars cast r))
              (filter (\<lambda>r. upb_dollars cast r \<noteq> None)
                 (filter (\<lambda>r. col_issuer r = k) df_month))))
   \<and> (\<forall>w\<in>set (gnma_agg cast name_map month df_month).
        total_upb (kept w) = sum_list (map (\<lambda>r. the (upb_dollars cast r))
              (filter (\<lambda>r. upb_dollars cast r \<noteq> None)
                 (filter (\<lambda>r. col_seller r = seller_issuer_id (kept w) \<and>
                              col_issuer r = issuer_id (kept w)) (transfers df_month)))))"
proof (intro conjI)
  show "upb_dollars cast r = None \<longleftrightarrow>
     (col_upb r = None \<or>
      (\<exists>s. col_upb r = Some s \<and> (strip_chars s = [] \<or> cast (strip_chars s) = None)))"
    by (rule upb_dollars_None_iff)
  show "\<forall>(k, n, u)\<in>set (servicer_totals cast df_month).
        u = sum_list (map (\<lambda>r. the (upb_dollars cast r))
              (filter (\<lambda>r. upb_dollars cast r \<noteq> None)
                 (filter (\<lambda>r. col_issuer r = k) df_month)))"
    unfolding servicer_totals_eq by (auto simp: col_sum_present)
  show "\<forall>w\<in>set (gnma_agg cast name_map month df_month).
        total_upb (kept w) = sum_list (map (\<lambda>r. the (upb_dollars cast r))
              (filter (\<lambda>r. upb_dollars cast r \<noteq> None)
                 (filter (\<lambda>r. col_seller r = seller_issuer_id (kept w) \<and>
                              col_issuer r = issuer_id (kept w)) (transfers df_month))))"
  proof
    fix w assume "w \<in> set (gnma_agg cast name_map month df_month)"
    then obtain s i where
      w: "w = gnma_agg_row cast name_map month (servicer_totals cast df_month)
               (seller_book cast df_month)
               ((s, i), filter (\<lambda>x. (col_seller x, col_issuer x) = (s, i)) (transfers df_month))"
      by (auto simp: gnma_agg_def group_by_def)
    show "total_upb (kept w) = sum_list (map (\<lambda>r. the (upb_dollars cast r))
              (filter (\<lambda>r. upb_dollars cast r \<noteq> None)
                 (filter (\<lambda>r. col_seller r = seller_issuer_id (kept w) \<and>
                              col_issuer r = issuer_id (kept w)) (transfers df_month))))"
      unfolding w by (simp add: gnma_agg_row_sel col_sum_present)
  qed
qed

theorem missing_balance_excluded_witness:
  "upb_dollars cast_decimal
     \<lparr>col_pool = Some ''P1'', col_loan = Some ''3'', col_issuer = Some ''Y'',
      col_seller = Some ''  '', col_upb = Some ''''\<rparr> = None \<and>
   upb_dollars cast_decimal
     \<lparr>col_pool = Some ''P2'', col_loan = Some ''1'', col_issuer = Some ''X'',
      col_seller = None, col_upb = Some ''abc''\<rparr> = None \<and>
   list_all (\<lambda>(k, n, u).
        u = sum_list (map (\<lambda>r. the (upb_dollars cast_decimal r))
              (filter (\<lambda>r. upb_dollars cast_decimal r \<noteq> None)
                 (filter (\<lambda>r. col_issuer r = k) flag_month))))
     (servicer_totals cast_decimal flag_month) \<and>
   servicer_totals cast_decimal flag_month = [(Some ''Y'', 3, 4469 / 20), (Some ''X'', 1, 0)]"
proof -
  note t = missing_balance_excluded [where cast = cast_decimal and df_month = flag_month
      and name_map = Map.empty and month = "''201504''"]
  have a: "upb_dollars cast_decimal
     \<lparr>col_pool = Some ''P1'', col_loan = Some ''3'', col_issuer = Some ''Y'',
      col_seller = Some ''  '', col_upb = Some ''''\<rparr> = None"
    using t [where r = "\<lparr>col_pool = Some ''P1'', col_loan = Some ''3'', col_issuer = Some ''Y'',
      col_seller = Some ''  '', col_upb = Some ''''\<rparr>"]
    by (simp add: strip_simps)
  have b: "upb_dollars cast_decimal
     \<lparr>col_pool = Some ''P2'', col_loan = Some ''1'', col_issuer = Some ''X'',
      col_seller = None, col_upb = Some ''abc''\<rparr> = None"
    using t [where r = "\<lparr>col_pool = Some ''P2'', col_loan = Some ''1'', col_issuer = Some ''X'',
      col_seller = None, col_upb = Some ''abc''\<rparr>"]
    by (simp add: strip_simps cast_simps)
  have c: "list_all (\<lambda>(k, n, u).
        u = sum_list (map (\<lambda>r. the (upb_dollars cast_decimal r))
              (filter (\<lambda>r. upb_dollars cast_decimal r \<noteq> None)
                 (filter (\<lambda>r. col_issuer r = k) flag_month))))
     (servicer_totals cast_decimal flag_month)"
    using t [where r = undefined] unfolding list_all_iff by blast
  from a b c flag_totals show ?thesis by blast
qed

section \<open>The normalization fractions\<close>

lemma col_count_present: "col_count (map f xs) = sum_list (map (\<lambda>x. present (f x)) xs)"
proof (induction xs)
  case Nil
  then show ?case by simp
next
  case (Cons a xs)
  then show ?case by (cases "f a") (simp_all add: present_def)
qed

text \<open>
  A join in which every left row has at most one partner: a weight read off the left row,
  summed over the joined rows that pass a filter, is bounded by the weight of the left rows.
\<close>

lemma one_partner_bound:
  fixes h :: "'x \<Rightarrow> 'a::ordered_comm_monoid_add"
  assumes "\<forall>x\<in>set xs. length (filter (R x) ys) \<le> 1"
      and "\<forall>x\<in>set xs. 0 \<le> h x"
      and "\<forall>x y. R x y \<and> P (f x y) \<longrightarrow> Q x \<and> g (f x y) \<le> h x"
  shows "sum_list (map g (filter P (concat (map (\<lambda>x. map (f x) (filter (R x) ys)) xs))))
           \<le> sum_list (map h (filter Q xs))"
  using assms(1,2)
proof (induction xs)
  case Nil
  then show ?case by simp
next
  case (Cons a xs)
  then have ih: "sum_list (map g (filter P (concat (map (\<lambda>x. map (f x) (filter (R x) ys)) xs))))
           \<le> sum_list (map h (filter Q xs))" by simp
  have h0: "0 \<le> h a" using Cons.prems by simp
  have len: "length (filter (R a) ys) \<le> 1" using Cons.prems by simp
  have one: "sum_list (map g (filter P (map (f a) (filter (R a) ys)))) \<le> (if Q a then h a else 0)"
  proof (cases "filter (R a) ys")
    case Nil
    then show ?thesis using h0 by simp
  next
    case (Cons b bs)
    then have bs: "bs = []" using len by simp
    have "b \<in> set (filter (R a) ys)" using Cons by simp
    then have rab: "R a b" by simp
    show ?thesis
    proof (cases "P (f a b)")
      case True
      then have "Q a" "g (f a b) \<le> h a" using assms(3) rab by blast+
      with True show ?thesis by (simp add: Cons bs)
    next
      case False
      then show ?thesis using h0 by (simp add: Cons bs)
    qed
  qed
  have "sum_list (map g (filter P (concat (map (\<lambda>x. map (f x) (filter (R x) ys)) (a # xs)))))
        = sum_list (map g (filter P (map (f a) (filter (R a) ys)))) +
          sum_list (map g (filter P (concat (map (\<lambda>x. map (f x) (filter (R x) ys)) xs))))"
    by simp
  also have "\<dots> \<le> (if Q a then h a else 0) + sum_list (map h (filter Q xs))"
    by (rule add_mono[OF one ih])
  also have "\<dots> = sum_list (map h (filter Q (a # xs)))" by simp
  finally show ?case .
qed

text \<open>The inner join lists the same pairs whichever side is the outer loop.\<close>

lemma mset_concat_append:
  "mset (concat (map (\<lambda>y. F y @ G y) ys)) = mset (concat (map F ys)) + mset (concat (map G ys))"
  by (induction ys) simp_all

lemma mset_concat_if:
  "mset (concat (map (\<lambda>y. if R y then [k y] else []) ys)) = mset (map k (filter R ys))"
  by (induction ys) simp_all

lemma mset_join_swap:
  "mset (concat (map (\<lambda>x. map (f x) (filter (R x) ys)) xs)) =
   mset (concat (map (\<lambda>y. map (\<lambda>x. f x y) (filter (\<lambda>x. R x y) xs)) ys))"
proof (induction xs)
  case Nil
  then show ?case by (induction ys) simp_all
next
  case (Cons a xs)
  have "(\<lambda>y. map (\<lambda>x. f x y) (filter (\<lambda>x. R x y) (a # xs))) =
        (\<lambda>y. (if R a y then [f a y] else []) @ map (\<lambda>x. f x y) (filter (\<lambda>x. R x y) xs))"
    by auto
  then have "mset (concat (map (\<lambda>y. map (\<lambda>x. f x y) (filter (\<lambda>x. R x y) (a # xs))) ys)) =
     mset (concat (map (\<lambda>y. if R a y then [f a y] else []) ys)) +
     mset (concat (map (\<lambda>y. map (\<lambda>x. f x y) (filter (\<lambda>x. R x y) xs)) ys))"
    by (simp only: mset_concat_append)
  also have "\<dots> = mset (map (f a) (filter (R a) ys)) +
                   mset (concat (map (\<lambda>x. map (f x) (filter (R x) ys)) xs))"
    by (simp only: mset_concat_if Cons.IH)
  finally show ?case by simp
qed

lemma sum_filter_mset_cong:
  fixes g :: "'x \<Rightarrow> 'a::comm_monoid_add"
  assumes "mset xs = mset ys"
  shows "sum_list (map g (filter P xs)) = sum_list (map g (filter P ys))"
proof -
  have "sum_list (map g (filter P xs)) = sum_mset (image_mset g (filter_mset P (mset xs)))"
    by (metis mset_filter mset_map sum_mset_sum_list)
  also have "\<dots> = sum_mset (image_mset g (filter_mset P (mset ys)))" using assms by simp
  also have "\<dots> = sum_list (map g (filter P ys))"
    by (metis mset_filter mset_map sum_mset_sum_list)
  finally show ?thesis .
qed

lemma unique_ids_partner:
  assumes "unique_ids c"
  shows "length (filter (\<lambda>b. loan_id b = Some i) c) \<le> 1"
  using assms
proof (induction c)
  case Nil
  then show ?case by simp
next
  case (Cons b c)
  then have u: "unique_ids c" by (auto simp: unique_ids_def split: if_splits)
  show ?case
  proof (cases "loan_id b = Some i")
    case True
    then have "Some i \<notin> set (map loan_id c)"
      using Cons.prems by (auto simp: unique_ids_def)
    then have "filter (\<lambda>b. loan_id b = Some i) c = []"
      by (induction c) auto
    with True show ?thesis by simp
  next
    case False
    with Cons.IH[OF u] show ?thesis by simp
  qed
qed

lemma key_match_partner_curr:
  assumes "unique_ids c"
  shows "length (filter (key_match a) c) \<le> 1"
proof (cases "loan_id a")
  case None
  then show ?thesis by (simp add: key_match_def)
next
  case (Some i)
  then have "key_match a = (\<lambda>b. loan_id b = Some i)"
    by (auto simp: key_match_def fun_eq_iff)
  then show ?thesis using unique_ids_partner[OF assms] by simp
qed

lemma key_match_partner_prev:
  assumes "unique_ids p"
  shows "length (filter (\<lambda>a. key_match a b) p) \<le> 1"
proof (cases "loan_id b")
  case None
  then have "filter (\<lambda>a. key_match a b) p = []"
    by (induction p) (auto simp: key_match_def)
  then show ?thesis by simp
next
  case (Some i)
  then have "filter (\<lambda>a. key_match a b) p = filter (\<lambda>a. loan_id a = Some i) p"
    by (intro filter_cong) (auto simp: key_match_def)
  then show ?thesis using unique_ids_partner[OF assms] by simp
qed

text \<open>The groups of the differencing step, as filters of the inner join.\<close>

lemma changed_group:
  "filter (\<lambda>j. (j_servicer_from j, j_servicer_to j) = k) (changed p c) =
   filter (\<lambda>j. col_ne (j_servicer_from j) (j_servicer_to j) = Some True \<and>
               (j_servicer_from j, j_servicer_to j) = k) (inner_join p c)"
  by (simp add: changed_def df_filter_def)

lemma seller_side_bound:
  fixes ha :: "loan \<Rightarrow> 'a::ordered_comm_monoid_add"
  assumes "unique_ids c" and "\<forall>a\<in>set p. 0 \<le> ha a"
      and "\<forall>a b. key_match a b \<longrightarrow> g (mk_joined a b) \<le> ha a"
  shows "sum_list (map g (filter (\<lambda>j. (j_servicer_from j, j_servicer_to j) = (Some f, Some t))
                            (changed p c)))
           \<le> sum_list (map ha (filter (\<lambda>a. servicer a = Some f) p))"
  unfolding changed_group inner_join_def
proof (rule one_partner_bound)
  show "\<forall>x\<in>set p. length (filter (key_match x) c) \<le> 1"
    using key_match_partner_curr[OF assms(1)] by blast
  show "\<forall>x\<in>set p. 0 \<le> ha x" by (rule assms(2))
  show "\<forall>x y. key_match x y \<and>
          (col_ne (j_servicer_from (mk_joined x y)) (j_servicer_to (mk_joined x y)) = Some True \<and>
           (j_servicer_from (mk_joined x y), j_servicer_to (mk_joined x y)) = (Some f, Some t))
          \<longrightarrow> servicer x = Some f \<and> g (mk_joined x y) \<le> ha x"
    using assms(3) by simp
qed

lemma buyer_side_bound:
  fixes hb :: "loan \<Rightarrow> 'a::ordered_comm_monoid_add"
  assumes "unique_ids p" and "\<forall>b\<in>set c. 0 \<le> hb b"
      and "\<forall>a b. key_match a b \<longrightarrow> g (mk_joined a b) \<le> hb b"
  shows "sum_list (map g (filter (\<lambda>j. (j_servicer_from j, j_servicer_to j) = (Some f, Some t))
                            (changed p c)))
           \<le> sum_list (map hb (filter (\<lambda>b. servicer b = Some t) c))"
proof -
  let ?P = "\<lambda>j. col_ne (j_servicer_from j) (j_servicer_to j) = Some True \<and>
               (j_servicer_from j, j_servicer_to j) = (Some f, Some t)"
  let ?swapped = "concat (map (\<lambda>b. map (\<lambda>a. mk_joined a b) (filter (\<lambda>a. key_match a b) p)) c)"
  have m: "mset (inner_join p c) = mset ?swapped"
    unfolding inner_join_def by (rule mset_join_swap)
  have "sum_list (map g (filter ?P (inner_join p c))) = sum_list (map g (filter ?P ?swapped))"
    by (rule sum_filter_mset_cong[OF m])
  also have "\<dots> \<le> sum_list (map hb (filter (\<lambda>b. servicer b = Some t) c))"
  proof (rule one_partner_bound)
    show "\<forall>x\<in>set c. length (filter (\<lambda>a. key_match a x) p) \<le> 1"
      using key_match_partner_prev[OF assms(1)] by blast
    show "\<forall>x\<in>set c. 0 \<le> hb x" by (rule assms(2))
    show "\<forall>x y. key_match y x \<and>
          (col_ne (j_servicer_from (mk_joined y x)) (j_servicer_to (mk_joined y x)) = Some True \<and>
           (j_servicer_from (mk_joined y x), j_servicer_to (mk_joined y x)) = (Some f, Some t))
          \<longrightarrow> servicer x = Some t \<and> g (mk_joined y x) \<le> hb x"
      using assms(3) by simp
  qed
  finally show ?thesis unfolding changed_group .
qed

lemma present_match:
  "key_match a b \<Longrightarrow> present (loan_id b) = present (loan_id a)"
  by (simp add: key_match_def)

lemma length_filter_mono:
  "\<forall>x\<in>set xs. P x \<longrightarrow> Q x \<Longrightarrow> length (filter P xs) \<le> length (filter Q xs)"
  by (induction xs) auto

lemma count_fraction_ok_truediv:
  assumes "n \<le> d" "1 \<le> d"
  shows "count_fraction_ok (Some d) (truediv (Some (of_nat n)) (rat_of_count (Some d)))"
proof -
  have d: "(of_nat d :: rat) > 0" using assms(2) by simp
  have "(of_nat n :: rat) \<le> of_nat d" using assms(1) by simp
  then have "(of_nat n :: rat) / of_nat d \<le> 1" using d by (simp add: divide_le_eq_1)
  moreover have "0 \<le> (of_nat n :: rat) / of_nat d" by simp
  ultimately show ?thesis using assms(2) d by (simp add: count_fraction_ok_def rat_of_count_def)
qed

lemma balance_fraction_ok_truediv: "balance_fraction_ok den (truediv (Some x) den)"
  by (cases den) (simp_all add: balance_fraction_ok_def)

lemma diff_fractions_ok:
  assumes ua: "unique_ids p" and uc: "unique_ids c"
      and w: "w \<in> set (diff_agg m p c)"
  shows "count_fraction_ok (seller_total_n w) (frac_seller_n (kept w)) \<and>
         balance_fraction_ok (seller_total_upb w) (frac_seller_upb (kept w)) \<and>
         count_fraction_ok (buyer_total_n w) (frac_buyer_n (kept w)) \<and>
         balance_fraction_ok (buyer_total_upb w) (frac_buyer_upb (kept w))"
proof -
  from w obtain f t a b where
    weq: "w = diff_agg_row m (totals_by_servicer p) (totals_by_servicer c)
           ((Some f, Some t),
            filter (\<lambda>j. (j_servicer_from j, j_servicer_to j) = (Some f, Some t)) (changed p c))"
    and ab: "a \<in> set p" "b \<in> set c" "key_match a b" "servicer a = Some f" "servicer b = Some t"
    by (rule diff_agg_rowE)
  from ab(3) obtain i where i: "loan_id a = Some i" "loan_id b = Some i"
    by (auto simp: key_match_def)
  let ?G = "filter (\<lambda>j. (j_servicer_from j, j_servicer_to j) = (Some f, Some t)) (changed p c)"
  let ?A = "filter (\<lambda>a. servicer a = Some f) p"
  let ?B = "filter (\<lambda>b. servicer b = Some t) c"
  have sel: "seller_total_n w = Some (col_count (map loan_id ?A))"
    unfolding weq by (simp add: diff_agg_row_sel totals_by_servicer_lookup[OF ab(1) ab(4)])
  have buy: "buyer_total_n w = Some (col_count (map loan_id ?B))"
    unfolding weq by (simp add: diff_agg_row_sel totals_by_servicer_lookup[OF ab(2) ab(5)])
  have num: "n_loans (kept w) = col_count (map j_loan_id ?G)"
    unfolding weq by (simp add: diff_agg_row_sel)
  have n_sel: "col_count (map j_loan_id ?G) \<le> col_count (map loan_id ?A)"
    unfolding col_count_present
    by (rule seller_side_bound[OF uc]) simp_all
  have n_buy: "col_count (map j_loan_id ?G) \<le> col_count (map loan_id ?B)"
    unfolding col_count_present
    by (rule buyer_side_bound[OF ua]) (simp_all add: present_match)
  have 1: "count_fraction_ok (seller_total_n w) (frac_seller_n (kept w))"
    unfolding diff_agg_fracs(1)[OF w] sel num
    by (rule count_fraction_ok_truediv[OF n_sel servicer_count_pos[OF ab(1) ab(4) i(1)]])
  have 2: "balance_fraction_ok (seller_total_upb w) (frac_seller_upb (kept w))"
    unfolding diff_agg_fracs(3)[OF w] by (rule balance_fraction_ok_truediv)
  have 3: "count_fraction_ok (buyer_total_n w) (frac_buyer_n (kept w))"
    unfolding diff_agg_fracs(2)[OF w] buy num
    by (rule count_fraction_ok_truediv[OF n_buy servicer_count_pos[OF ab(2) ab(5) i(2)]])
  have 4: "balance_fraction_ok (buyer_total_upb w) (frac_buyer_upb (kept w))"
    unfolding diff_agg_fracs(4)[OF w] by (rule balance_fraction_ok_truediv)
  from 1 2 3 4 show ?thesis by blast
qed

lemma gnma_fractions_ok:
  assumes w: "w \<in> set (gnma_agg cast nm m df)"
  shows "count_fraction_ok (seller_total_n w) (frac_seller_n (kept w)) \<and>
         balance_fraction_ok (seller_total_upb w) (frac_seller_upb (kept w)) \<and>
         count_fraction_ok (buyer_total_n w) (frac_buyer_n (kept w)) \<and>
         balance_fraction_ok (buyer_total_upb w) (frac_buyer_upb (kept w))"
proof -
  from w obtain r s where
    weq: "w = gnma_agg_row cast nm m (servicer_totals cast df) (seller_book cast df)
           ((Some s, col_issuer r),
            filter (\<lambda>x. (col_seller x, col_issuer x) = (Some s, col_issuer r)) (transfers df))"
    and r: "r \<in> set (transfers df)" "col_seller r = Some s"
    by (rule gnma_agg_rowE)
  let ?G = "filter (\<lambda>x. (col_seller x, col_issuer x) = (Some s, col_issuer r)) (transfers df)"
  let ?X = "filter (\<lambda>x. col_seller x = Some s) (transfers df)"
  let ?R = "filter (\<lambda>x. col_issuer x = Some s) df"
  have num: "n_loans (kept w) = length ?G"
    unfolding weq by (simp add: gnma_agg_row_sel)
  have sel: "seller_total_n w = Some (length ?X + length ?R)"
    unfolding weq by (simp add: gnma_agg_row_sel seller_book_lookup[OF r])
  have nGX: "length ?G \<le> length ?X" by (rule length_filter_mono) simp
  have "r \<in> set ?X" using r by simp
  then have X1: "1 \<le> length ?X" by (cases ?X) auto
  have 1: "count_fraction_ok (seller_total_n w) (frac_seller_n (kept w))"
    unfolding gnma_agg_fracs(1)[OF w] sel num
    by (rule count_fraction_ok_truediv) (use nGX X1 in simp_all)
  have 2: "balance_fraction_ok (seller_total_upb w) (frac_seller_upb (kept w))"
    unfolding gnma_agg_fracs(3)[OF w] by (rule balance_fraction_ok_truediv)
  have 3: "count_fraction_ok (buyer_total_n w) (frac_buyer_n (kept w))"
  proof (cases "col_issuer r")
    case None
    then have "buyer_total_n w = None"
      unfolding weq by (simp add: gnma_agg_row_sel left_lookup_def)
    then show ?thesis
      unfolding gnma_agg_fracs(2)[OF w]
      by (simp add: rat_of_count_def count_fraction_ok_def)
  next
    case (Some y)
    let ?Y = "filter (\<lambda>x. col_issuer x = Some y) df"
    have rdf: "r \<in> set df" using r(1) by (simp add: transfers_def)
    then have "Some y \<in> col_issuer ` set df" using Some by force
    then have buy: "buyer_total_n w = Some (length ?Y)"
      unfolding weq by (simp add: gnma_agg_row_sel Some servicer_totals_lookup)
    have Gdf: "?G = filter (\<lambda>x. is_transfer x \<and> (col_seller x, col_issuer x) = (Some s, Some y)) df"
      by (simp add: transfers_def Some)
    have nGY: "length ?G \<le> length ?Y"
      unfolding Gdf by (rule length_filter_mono) simp
    have "r \<in> set ?Y" using rdf Some by simp
    then have Y1: "1 \<le> length ?Y" by (cases ?Y) auto
    show ?thesis
      unfolding gnma_agg_fracs(2)[OF w] buy num
      by (rule count_fraction_ok_truediv[OF nGY Y1])
  qed
  have 4: "balance_fraction_ok (buyer_total_upb w) (frac_buyer_upb (kept w))"
    unfolding gnma_agg_fracs(4)[OF w] by (rule balance_fraction_ok_truediv)
  from 1 2 3 4 show ?thesis by blast
qed

text \<open>
  C3 (amended). In every aggregate row of either reconciler, each of the four fractions is
  missing exactly when its denominator is missing. A count denominator, when present, is
  at least 1, and the count fraction then lies between 0 and 1 (in the differencing
  reconcilers provided loan identifiers are unique within each snapshot). A balance
  denominator equal to 0 gives a fraction that is not missing and not a number (NaN or an
  infinity). No bound is stated for the balance fractions.
\<close>

theorem fractions_normalized:
  assumes "unique_ids df_prev" and "unique_ids df_curr"
  shows "(\<forall>w\<in>set (diff_agg month_curr df_prev df_curr).
            count_fraction_ok (seller_total_n w) (frac_seller_n (kept w)) \<and>
            balance_fraction_ok (seller_total_upb w) (frac_seller_upb (kept w)) \<and>
            count_fraction_ok (buyer_total_n w) (frac_buyer_n (kept w)) \<and>
            balance_fraction_ok (buyer_total_upb w) (frac_buyer_upb (kept w)))
       \<and> (\<forall>w\<in>set (gnma_agg cast name_map month df_month).
            count_fraction_ok (seller_total_n w) (frac_seller_n (kept w)) \<and>
            balance_fraction_ok (seller_total_upb w) (frac_seller_upb (kept w)) \<and>
            count_fraction_ok (buyer_total_n w) (frac_buyer_n (kept w)) \<and>
            balance_fraction_ok (buyer_total_upb w) (frac_buyer_upb (kept w)))"
  using diff_fractions_ok[OF assms(1,2)] gnma_fractions_ok by blast

theorem fractions_normalized_witness:
  "list_all (\<lambda>w. count_fraction_ok (seller_total_n w) (frac_seller_n (kept w)) \<and>
            balance_fraction_ok (seller_total_upb w) (frac_seller_upb (kept w)) \<and>
            count_fraction_ok (buyer_total_n w) (frac_buyer_n (kept w)) \<and>
            balance_fraction_ok (buyer_total_upb w) (frac_buyer_upb (kept w)))
     (diff_agg ''201907'' scen_prev scen_curr)
   \<and> diff_agg ''201907'' scen_prev scen_curr \<noteq> []
   \<and> list_all (\<lambda>w. count_fraction_ok (seller_total_n w) (frac_seller_n (kept w)) \<and>
            balance_fraction_ok (seller_total_upb w) (frac_seller_upb (kept w)) \<and>
            count_fraction_ok (buyer_total_n w) (frac_buyer_n (kept w)) \<and>
            balance_fraction_ok (buyer_total_upb w) (frac_buyer_upb (kept w)))
     (gnma_agg cast_decimal Map.empty ''201504'' blank_month)
   \<and> gnma_agg cast_decimal Map.empty ''201504'' blank_month \<noteq> []"
proof -
  have h: "unique_ids scen_prev" "unique_ids scen_curr"
    by (simp_all add: unique_ids_def scen_prev_def scen_curr_def)
  note t = fractions_normalized
    [OF h, where month_curr = "''201907''" and cast = cast_decimal and name_map = Map.empty
       and month = "''201504''" and df_month = blank_month]
  have ne: "diff_agg ''201907'' scen_prev scen_curr \<noteq> []"
    "gnma_agg cast_decimal Map.empty ''201504'' blank_month \<noteq> []"
    by (simp_all add: scen_agg gnma_eval blank_month_def)
  from t ne show ?thesis unfolding list_all_iff by blast
qed

text \<open>
  The claim as stated fails. There is no guard on the divisions: a month whose only
  transferred balance is blank has balance denominators equal to 0 and balance fractions
  NaN, which is not the missing value; and a negative balance gives balance fractions
  below 0 in a row all of whose denominators are positive.
\<close>

theorem fraction_counterexample:
  "map (\<lambda>w. (seller_total_upb w, frac_seller_upb (kept w), buyer_total_upb w, frac_buyer_upb (kept w)))
     (gnma_agg cast_decimal Map.empty ''201504'' blank_month)
     = [(Some 0, Some NaN, Some 0, Some NaN)]
   \<and> map (\<lambda>w. (seller_total_n w, seller_total_upb w, buyer_total_n w, buyer_total_upb w,
                frac_seller_upb (kept w), frac_buyer_upb (kept w)))
     (gnma_agg cast_decimal Map.empty ''201504'' negative_month)
     = [(Some 2, Some 2, Some 2, Some 2, Some (Num (- 1 / 2)), Some (Num (- 1 / 2)))]"
  by (simp add: gnma_eval blank_month_def negative_month_def)

section \<open>Determinism\<close>

text \<open>
  The columns without balances of an aggregate row are built from the group key, from row
  counts and from the name lookup. Row counts do not depend on the order of the rows, so
  two frames holding the same rows give the same such columns. No property of the balance
  sums is used.
\<close>

lemma diff_main_cases:
  "(\<exists>e. \<forall>srt. diff_main srt files = Inl e) \<or> (\<forall>srt. diff_main srt files = Inr None) \<or>
   (\<exists>xs. \<forall>srt. diff_main srt files = Inr (Some (srt xs)))"
  by (auto simp: diff_main_def split: list.splits option.splits sum.splits)

lemma length_filter_mset_cong:
  assumes "mset xs = mset ys"
  shows "length (filter P xs) = length (filter P ys)"
proof -
  have "length (filter P xs) = size (filter_mset P (mset xs))"
    by (metis mset_filter size_mset)
  also have "\<dots> = size (filter_mset P (mset ys))" using assms by simp
  also have "\<dots> = length (filter P ys)" by (metis mset_filter size_mset)
  finally show ?thesis .
qed

lemma transfers_mset_cong: "mset xs = mset ys \<Longrightarrow> mset (transfers xs) = mset (transfers ys)"
  by (simp add: transfers_def)

lemma servicer_totals_lookup_any:
  "left_lookup (servicer_totals cast df) k =
     (if k \<noteq> None \<and> k \<in> col_issuer ` set df
      then Some (length (filter (\<lambda>r. col_issuer r = k) df),
                 col_sum (map (upb_dollars cast) (filter (\<lambda>r. col_issuer r = k) df)))
      else None)"
  by (simp add: servicer_totals_eq left_lookup_map)

lemma seller_book_lookup_any:
  "left_lookup (seller_book cast df) k =
     (if k \<noteq> None \<and> k \<in> col_seller ` set (transfers df)
      then Some (length (filter (\<lambda>r. col_seller r = k) (transfers df)) +
           (case map_option fst (left_lookup (servicer_totals cast df) k) of None \<Rightarrow> 0 | Some n \<Rightarrow> n),
         col_sum (map (upb_dollars cast) (filter (\<lambda>r. col_seller r = k) (transfers df))) +
           (case map_option snd (left_lookup (servicer_totals cast df) k) of None \<Rightarrow> 0 | Some u \<Rightarrow> u))
      else None)"
  unfolding seller_book_eq left_lookup_map by simp

lemma load_month_cong:
  assumes "\<forall>xs. mset (uniq1 xs) = mset (uniq2 xs)"
  shows "(\<exists>e. load_month uniq1 fs = Inl e \<and> load_month uniq2 fs = Inl e) \<or>
         (\<exists>a b. load_month uniq1 fs = Inr a \<and> load_month uniq2 fs = Inr b \<and> mset a = mset b)"
  using assms by (cases "month_frames fs") (auto simp: load_month_def)

lemma servicer_totals_count_cong:
  assumes "mset df = mset df'"
  shows "map_option fst (left_lookup (servicer_totals cast df) k) =
         map_option fst (left_lookup (servicer_totals cast df') k)"
  unfolding servicer_totals_lookup_any
  using mset_eq_setD[OF assms] length_filter_mset_cong[OF assms]
  by simp

lemma seller_book_count_cong:
  assumes "mset df = mset df'"
  shows "map_option fst (left_lookup (seller_book cast df) k) =
         map_option fst (left_lookup (seller_book cast df') k)"
proof -
  note t = transfers_mset_cong[OF assms]
  have "map_option fst (left_lookup (seller_book cast d) k) =
          (if k \<noteq> None \<and> k \<in> col_seller ` set (transfers d)
           then Some (length (filter (\<lambda>r. col_seller r = k) (transfers d)) +
                 (case map_option fst (left_lookup (servicer_totals cast d) k) of
                    None \<Rightarrow> 0 | Some n \<Rightarrow> n))
           else None)" for d
    unfolding seller_book_lookup_any by simp
  then show ?thesis
    using mset_eq_setD[OF t] length_filter_mset_cong[OF t]
          servicer_totals_count_cong[OF assms, of cast k]
    by simp
qed

lemma gnma_row_columns:
  "count_columns (kept (gnma_agg_row cast nm m T K (k, g))) =
     (map_option (issuer_name nm) (fst k), map_option (issuer_name nm) (snd k), m, length g,
      truediv (Some (of_nat (length g))) (rat_of_count (map_option fst (left_lookup K (fst k)))),
      truediv (Some (of_nat (length g))) (rat_of_count (map_option fst (left_lookup T (snd k)))),
      \<lparr>seller_issuer_id = fst k, issuer_id = snd k\<rparr>)"
  by (simp add: count_columns_def gnma_agg_row_def Let_def gnma_out.defs transition.defs)

lemma gnma_agg_columns_cong:
  assumes "mset df = mset df'"
  shows "mset (map (\<lambda>w. count_columns (kept w)) (gnma_agg cast nm m df)) =
         mset (map (\<lambda>w. count_columns (kept w)) (gnma_agg cast nm m df'))"
proof -
  note t = transfers_mset_cong[OF assms]
  let ?ks = "\<lambda>d. map (\<lambda>r. (col_seller r, col_issuer r)) (transfers d)"
  let ?F = "\<lambda>d k. count_columns (kept (gnma_agg_row cast nm m (servicer_totals cast d)
                   (seller_book cast d)
                   (k, filter (\<lambda>x. (col_seller x, col_issuer x) = k) (transfers d))))"
  have a: "map (\<lambda>w. count_columns (kept w)) (gnma_agg cast nm m d) =
           map (?F d) (remdups (?ks d))" for d
    by (simp add: gnma_agg_def group_by_def o_def)
  have "set (?ks df) = set (?ks df')"
    using mset_eq_setD[OF t] by simp
  then have k: "mset (remdups (?ks df)) = mset (remdups (?ks df'))"
    by (rule iffD1[OF set_eq_iff_mset_remdups_eq])
  have f: "?F df = ?F df'"
  proof (intro ext)
    fix k
    show "?F df k = ?F df' k"
      unfolding gnma_row_columns
        servicer_totals_count_cong[OF assms, of cast] seller_book_count_cong[OF assms, of cast]
        length_filter_mset_cong[OF t, of "\<lambda>x. (col_seller x, col_issuer x) = k"]
      by (rule refl)
  qed
  have "mset (map (?F df) (remdups (?ks df))) = image_mset (?F df) (mset (remdups (?ks df)))"
    by simp
  also have "\<dots> = image_mset (?F df') (mset (remdups (?ks df')))" unfolding k f ..
  also have "\<dots> = mset (map (?F df') (remdups (?ks df')))" by simp
  finally show ?thesis unfolding a .
qed

lemma gnma_step_columns_cong:
  assumes "mset df = mset df'"
  shows "(gnma_step cast nm m df = None \<and> gnma_step cast nm m df' = None) \<or>
         (\<exists>a b. gnma_step cast nm m df = Some a \<and> gnma_step cast nm m df' = Some b \<and>
                mset (map count_columns a) = mset (map count_columns b))"
proof -
  have len: "length (transfers df) = length (transfers df')"
    using transfers_mset_cong[OF assms] by (rule mset_eq_length)
  have mm: "map count_columns (map kept ws) = map (\<lambda>w. count_columns (kept w)) ws"
    for ws :: "gnma_out wide list"
    by simp
  have cols: "mset (map count_columns (map kept (gnma_agg cast nm m df))) =
              mset (map count_columns (map kept (gnma_agg cast nm m df')))"
    unfolding mm by (rule gnma_agg_columns_cong[OF assms])
  show ?thesis
  proof (cases "transfers df = []")
    case True
    then have "transfers df' = []" using len by simp
    with True show ?thesis by (simp add: gnma_step_def)
  next
    case False
    then have "transfers df' \<noteq> []" using len by auto
    with False have
      "gnma_step cast nm m df = Some (map kept (gnma_agg cast nm m df))"
      "gnma_step cast nm m df' = Some (map kept (gnma_agg cast nm m df'))"
      by (simp_all add: gnma_step_def)
    with cols show ?thesis by blast
  qed
qed

lemma gnma_loop_cong:
  assumes "\<forall>xs. mset (uniq1 xs) = mset (uniq2 xs)"
  shows "(\<exists>e. gnma_loop uniq1 cast nm months = Inl e \<and> gnma_loop uniq2 cast nm months = Inl e) \<or>
         (\<exists>a b. gnma_loop uniq1 cast nm months = Inr a \<and> gnma_loop uniq2 cast nm months = Inr b \<and>
                mset (map count_columns (concat a)) = mset (map count_columns (concat b)) \<and>
                (a = [] \<longleftrightarrow> b = []))"
proof (induction months)
  case Nil
  then show ?case by simp
next
  case (Cons x months)
  obtain m fs where x: "x = (m, fs)" by (cases x)
  from load_month_cong[OF assms, of fs] show ?case
  proof (elim disjE exE conjE)
    fix e assume "load_month uniq1 fs = Inl e" "load_month uniq2 fs = Inl e"
    then show ?thesis by (simp add: x)
  next
    fix a b assume l: "load_month uniq1 fs = Inr a" "load_month uniq2 fs = Inr b" "mset a = mset b"
    from Cons.IH show ?thesis
    proof (elim disjE exE conjE)
      fix e assume "gnma_loop uniq1 cast nm months = Inl e" "gnma_loop uniq2 cast nm months = Inl e"
      then show ?thesis by (simp add: x l)
    next
      fix ra rb assume r: "gnma_loop uniq1 cast nm months = Inr ra"
        "gnma_loop uniq2 cast nm months = Inr rb"
        "mset (map count_columns (concat ra)) = mset (map count_columns (concat rb))"
        "(ra = []) = (rb = [])"
      from gnma_step_columns_cong[OF l(3), of cast nm m] show ?thesis
      proof (elim disjE exE conjE)
        assume "gnma_step cast nm m a = None" "gnma_step cast nm m b = None"
        then show ?thesis using r by (simp add: x l)
      next
        fix sa sb assume "gnma_step cast nm m a = Some sa" "gnma_step cast nm m b = Some sb"
          "mset (map count_columns sa) = mset (map count_columns sb)"
        then show ?thesis using r by (simp add: x l)
      qed
    qed
  qed
qed

text \<open>The sort key is read off the columns without balances.\<close>

lemma sort_key_columns: "sort_key r = (fst (snd (snd (count_columns r))), fst (snd (snd (snd (count_columns r)))))"
  by (simp add: sort_key_def count_columns_def)

lemma sort_contract_columns:
  assumes "sort_contract sort_key s1" "sort_contract sort_key s2"
      and "mset (map count_columns xs) = mset (map count_columns ys)"
  shows "mset (map count_columns (s1 xs)) = mset (map count_columns (s2 ys)) \<and>
         map sort_key (s1 xs) = map sort_key (s2 ys)"
proof -
  have m1: "mset (s1 xs) = mset xs" and m2: "mset (s2 ys) = mset ys"
    using assms(1,2) by (simp_all add: sort_contract_def)
  have "mset (map count_columns (s1 xs)) = image_mset count_columns (mset (s1 xs))" by simp
  also have "\<dots> = mset (map count_columns xs)" unfolding m1 by simp
  also have "\<dots> = mset (map count_columns ys)" by (rule assms(3))
  also have "\<dots> = image_mset count_columns (mset (s2 ys))" unfolding m2 by simp
  also have "\<dots> = mset (map count_columns (s2 ys))" by simp
  finally have c: "mset (map count_columns (s1 xs)) = mset (map count_columns (s2 ys))" .
  have sk: "mset (map sort_key zs) =
            image_mset (\<lambda>c. (fst (snd (snd c)), fst (snd (snd (snd c)))))
              (mset (map count_columns zs))" for zs :: "'a transition_scheme list"
  proof -
    have e: "map sort_key zs =
             map (\<lambda>c. (fst (snd (snd c)), fst (snd (snd (snd c))))) (map count_columns zs)"
      by (simp add: sort_key_def count_columns_def)
    show ?thesis unfolding e by (rule mset_map)
  qed
  have k: "mset (map sort_key (s1 xs)) = mset (map sort_key (s2 ys))"
    unfolding sk c ..
  have a: "sorted_wrt (\<lambda>a b. row_le a b) (map sort_key (s1 xs))"
    using assms(1) by (simp add: sort_contract_def sorted_wrt_map)
  have b: "sorted_wrt (\<lambda>a b. row_le a b) (map sort_key (s2 ys))"
    using assms(2) by (simp add: sort_contract_def sorted_wrt_map)
  have "map sort_key (s1 xs) = map sort_key (s2 ys)"
    by (rule sorted_keys_unique[OF a b k])
  with c show ?thesis by blast
qed

lemma gnma_main_cong:
  assumes "sort_contract sort_key srt1" "sort_contract sort_key srt2"
      and "\<forall>xs. mset (uniq1 xs) = mset (uniq2 xs)"
  shows "same_up_to_ties (gnma_main uniq1 srt1 cast nm months) (gnma_main uniq2 srt2 cast nm months)"
proof (cases "months = []")
  case True
  then show ?thesis by (simp add: gnma_main_def same_up_to_ties_def)
next
  case False
  from gnma_loop_cong[OF assms(3), of cast nm months] show ?thesis
  proof (elim disjE exE conjE)
    fix e assume "gnma_loop uniq1 cast nm months = Inl e" "gnma_loop uniq2 cast nm months = Inl e"
    then show ?thesis using False by (simp add: gnma_main_def same_up_to_ties_def)
  next
    fix a b assume r: "gnma_loop uniq1 cast nm months = Inr a" "gnma_loop uniq2 cast nm months = Inr b"
      "mset (map count_columns (concat a)) = mset (map count_columns (concat b))"
      "(a = []) = (b = [])"
    show ?thesis
    proof (cases "a = []")
      case True
      then show ?thesis using r False by (simp add: gnma_main_def same_up_to_ties_def)
    next
      case ne: False
      from sort_contract_columns[OF assms(1,2) r(3)] show ?thesis
        using r ne False by (simp add: gnma_main_def same_up_to_ties_def)
    qed
  qed
qed

text \<open>
  C6 (amended). Two runs over the same inputs whose deduplications keep the same rows, in
  whatever order, end in the same exception, or both write no file, or write outputs that
  show the same sequence of (period, loan count) and hold the same rows as far as the
  names, identifiers, period, loan count and count fractions go; the order of rows that
  tie on (period, loan count) is not determined. Nothing is stated about the balance sum
  and the balance fractions.
\<close>

theorem output_determined_up_to_ties:
  assumes "sort_contract sort_key srt1" "sort_contract sort_key srt2"
      and "sort_contract sort_key srt1'" "sort_contract sort_key srt2'"
      and "same_kept_rows uniq1 uniq2"
  shows "same_up_to_ties (diff_main srt1 files) (diff_main srt2 files) \<and>
         same_up_to_ties (gnma_main uniq1 srt1' cast name_map months)
                         (gnma_main uniq2 srt2' cast name_map months)"
proof
  from diff_main_cases[of files]
  show "same_up_to_ties (diff_main srt1 files) (diff_main srt2 files)"
  proof (elim disjE exE)
    fix e assume "\<forall>srt. diff_main srt files = Inl e"
    then show ?thesis by (simp add: same_up_to_ties_def)
  next
    assume "\<forall>srt. diff_main srt files = Inr None"
    then show ?thesis by (simp add: same_up_to_ties_def)
  next
    fix xs assume "\<forall>srt. diff_main srt files = Inr (Some (srt xs))"
    then show ?thesis
      using sort_contract_columns[OF assms(1,2) refl, of xs]
      by (simp add: same_up_to_ties_def)
  qed
  show "same_up_to_ties (gnma_main uniq1 srt1' cast name_map months)
                         (gnma_main uniq2 srt2' cast name_map months)"
    using assms(5) unfolding same_kept_rows_def by (rule gnma_main_cong[OF assms(3,4)])
qed

theorem output_determined_up_to_ties_witness:
  "same_up_to_ties
     (diff_main (stable_sort sort_key) [(''201906'', Some scen_prev), (''201907'', Some scen_curr)])
     (diff_main (reversing_sort sort_key) [(''201906'', Some scen_prev), (''201907'', Some scen_curr)])
   \<and> same_up_to_ties
     (gnma_main unique_first (stable_sort sort_key) cast_decimal Map.empty
        [(''201504'', [Frame tie_month])])
     (gnma_main (\<lambda>xs. rev (unique_first xs)) (reversing_sort sort_key) cast_decimal Map.empty
        [(''201504'', [Frame tie_month])])
   \<and> gnma_main unique_first (stable_sort sort_key) cast_decimal Map.empty
        [(''201504'', [Frame tie_month])] = Inr (Some [row_XY, row_ZY])
   \<and> gnma_main unique_first (reversing_sort sort_key) cast_decimal Map.empty
        [(''201504'', [Frame tie_month])] = Inr (Some [row_ZY, row_XY])"
proof -
  have k: "same_kept_rows unique_first (\<lambda>xs. rev (unique_first xs))"
    by (simp add: same_kept_rows_def)
  note t = output_determined_up_to_ties
    [OF stable_sort_contract reversing_sort_contract stable_sort_contract reversing_sort_contract k,
     where files = "[(''201906'', Some scen_prev), (''201907'', Some scen_curr)]"
       and cast = cast_decimal and name_map = Map.empty
       and months = "[(''201504'', [Frame tie_month])]"]
  from t tie_main_stable tie_main_reversing show ?thesis by blast
qed

text \<open>
  The claim as stated fails. Two sorts within the library contract order two rows of equal
  period and loan count differently, so the written output differs between runs over the
  same input.
\<close>

theorem rerun_differs_counterexample:
  "sort_contract sort_key (stable_sort sort_key :: gnma_out list \<Rightarrow> gnma_out list) \<and>
   sort_contract sort_key (reversing_sort sort_key :: gnma_out list \<Rightarrow> gnma_out list) \<and>
   gnma_main unique_first (stable_sort sort_key) cast_decimal Map.empty
       [(''201504'', [Frame tie_month])] = Inr (Some [row_XY, row_ZY]) \<and>
   gnma_main unique_first (reversing_sort sort_key) cast_decimal Map.empty
       [(''201504'', [Frame tie_month])] = Inr (Some [row_ZY, row_XY]) \<and>
   [row_XY, row_ZY] \<noteq> [row_ZY, row_XY]"
  by (simp add: stable_sort_contract reversing_sort_contract tie_main_stable tie_main_reversing)
     (simp add: row_XY_def row_ZY_def)

end
